theory Spec2Isabelle
  imports Complex_Main "HOL-Library.AList"
begin

section \<open>The job-event relay of code-in-backend\<close>

text \<open>
  The development follows \<^verbatim>\<open>src/lib/websocket.ts\<close> (the subscription registry, the
  relay and the connection gateway), \<^verbatim>\<open>src/lib/redis.ts\<close> (the bus client and the queue
  producer), \<^verbatim>\<open>src/lib/supabase.ts\<close> (the job store helpers), \<^verbatim>\<open>src/lib/models.ts\<close>
  (the model catalogue) and \<^verbatim>\<open>src/routes/repos.ts\<close> (job submission).

  Module-level variables become fields of a state record that every function takes and
  returns. A JavaScript exception is the left injection of a sum. Record fields carry a
  short prefix, since Isabelle record fields are global constants and the source reuses
  names such as \<^verbatim>\<open>job_id\<close>, \<^verbatim>\<open>status\<close> and \<^verbatim>\<open>message\<close> in several interfaces.
\<close>

subsection \<open>JavaScript containers\<close>

text \<open>
  A \<^verbatim>\<open>Map\<close> keeps its keys in insertion order: it is an association list whose keys are
  distinct. \<^verbatim>\<open>set\<close> on a present key replaces the value where it stands, on a new key it
  appends. A \<^verbatim>\<open>Set\<close> is a list without repetition, in insertion order. A \<^verbatim>\<open>Set\<close> held
  in a \<^verbatim>\<open>Map\<close> is an object: mutating it through the reference that \<^verbatim>\<open>get\<close> returned
  is written here as storing the new value under the same key.
\<close>

definition Map_get :: "('k \<times> 'v) list \<Rightarrow> 'k \<Rightarrow> 'v option" where
  "Map_get m k = map_of m k"

definition Map_has :: "('k \<times> 'v) list \<Rightarrow> 'k \<Rightarrow> bool" where
  "Map_has m k = (Map_get m k \<noteq> None)"

definition Map_set :: "('k \<times> 'v) list \<Rightarrow> 'k \<Rightarrow> 'v \<Rightarrow> ('k \<times> 'v) list" where
  "Map_set m k v = AList.update k v m"

definition Map_delete :: "('k \<times> 'v) list \<Rightarrow> 'k \<Rightarrow> ('k \<times> 'v) list" where
  "Map_delete m k = AList.delete k m"

definition Map_keys :: "('k \<times> 'v) list \<Rightarrow> 'k list" where
  "Map_keys m = map fst m"

definition Map_size :: "('k \<times> 'v) list \<Rightarrow> nat" where
  "Map_size m = length m"

definition Set_has :: "'a list \<Rightarrow> 'a \<Rightarrow> bool" where
  "Set_has xs x = (x \<in> set xs)"

definition Set_add :: "'a list \<Rightarrow> 'a \<Rightarrow> 'a list" where
  "Set_add xs x = (if Set_has xs x then xs else xs @ [x])"

definition Set_delete :: "'a list \<Rightarrow> 'a \<Rightarrow> 'a list" where
  "Set_delete xs x = removeAll x xs"

definition Set_size :: "'a list \<Rightarrow> nat" where
  "Set_size xs = length xs"

subsection \<open>Bus payloads (redis.ts)\<close>

datatype job_status = pending | processing | completed | failed

text \<open>
  \<^verbatim>\<open>progress\<close> is a JSON number, a finite double, hence a rational; the relay never
  computes with it. \<^verbatim>\<open>result\<close> is an arbitrary JSON object, kept as its text.
\<close>

type_synonym json = string

record StatusMessage =
  sm_job_id :: string
  sm_status :: job_status
  sm_message :: "string option"
  sm_progress :: "rat option"
  sm_timestamp :: string

record CompleteMessage =
  cm_job_id :: string
  cm_success :: bool
  cm_result :: "json option"
  cm_error :: "string option"
  cm_timestamp :: string

record JobMessage =
  jm_job_id :: string
  jm_repo_url :: string
  jm_selected_model :: string
  jm_timestamp :: string

subsection \<open>Gateway messages and connections (websocket.ts)\<close>

datatype in_type = subscribe | unsubscribe | ping

record WSMessage =
  in_type :: in_type
  in_job_id :: "string option"

datatype out_type = status | complete | error | subscribed | pong

datatype payload = StatusData StatusMessage | CompleteData CompleteMessage

record WSOutgoingMessage =
  out_type :: out_type
  out_job_id :: "string option"
  out_data :: "payload option"
  out_message :: "string option"

text \<open>
  A connection (\<^verbatim>\<open>type WS = any\<close>) is an object owned by the transport. The registry
  holds references to it, so a connection is an address, and the object it denotes lives
  in a store: its \<^verbatim>\<open>readyState\<close> (1 is \<^verbatim>\<open>WebSocket.OPEN\<close>) and whether a call of its
  \<^verbatim>\<open>send\<close> method throws. The transport changes both at will.
\<close>

type_synonym WS = nat

record socket =
  readyState :: nat
  send_throws :: bool

datatype exn = SendError

datatype console_line =
  ErrorSending
  | Connected nat
  | Disconnected nat
  | WebSocketError
  | ErrorParsingStatus
  | ErrorParsingComplete

text \<open>
  The state of the module: its two module-level containers, the store of connection
  objects, the frames that \<^verbatim>\<open>ws.send\<close> accepted (oldest first, with the connection that
  took each) and the lines written to the console.
\<close>

record relay =
  jobSubscriptions :: "(string \<times> WS list) list"
  allConnections :: "WS list"
  sockets :: "WS \<Rightarrow> socket"
  wire :: "(WS \<times> WSOutgoingMessage) list"
  console :: "console_line list"

definition init_relay :: "(WS \<Rightarrow> socket) \<Rightarrow> relay" where
  "init_relay socks =
     \<lparr>jobSubscriptions = [], allConnections = [], sockets = socks, wire = [], console = []\<rparr>"

text \<open>
  A call returns normally with the new state, or throws: the exception comes with the
  state reached when it was thrown, which is what a \<^verbatim>\<open>catch\<close> block continues from.
\<close>

type_synonym outcome = "(exn \<times> relay) + relay"

text \<open>\<^verbatim>\<open>ws.send(JSON.stringify(message))\<close>: throws, or hands the frame to the transport.\<close>

definition ws_send :: "WS \<Rightarrow> WSOutgoingMessage \<Rightarrow> relay \<Rightarrow> outcome" where
  "ws_send ws message s =
     (if send_throws (sockets s ws) then Inl (SendError, s)
      else Inr (s\<lparr>wire := wire s @ [(ws, message)]\<rparr>))"

text \<open>
  \<^verbatim>\<open>sendMessage\<close>: the body of the \<^verbatim>\<open>try\<close> sends only when \<^verbatim>\<open>readyState === 1\<close>; the
  \<^verbatim>\<open>catch\<close> writes a line to the console and returns normally.
\<close>

definition sendMessage :: "WS \<Rightarrow> WSOutgoingMessage \<Rightarrow> relay \<Rightarrow> outcome" where
  "sendMessage ws message s =
     (case (if readyState (sockets s ws) = 1 then ws_send ws message s else Inr s) of
        Inl (e, s1) \<Rightarrow> Inr (s1\<lparr>console := console s1 @ [ErrorSending]\<rparr>)
      | Inr s' \<Rightarrow> Inr s')"

text \<open>
  \<^verbatim>\<open>subscribers.forEach((ws) => sendMessage(ws, message))\<close>: the callback never touches
  the set, so the loop visits the members in insertion order; an exception leaving the
  callback would end the loop.
\<close>

fun forEach_sendMessage :: "WS list \<Rightarrow> WSOutgoingMessage \<Rightarrow> relay \<Rightarrow> outcome" where
  "forEach_sendMessage [] message s = Inr s"
| "forEach_sendMessage (ws # rest) message s =
     (case sendMessage ws message s of
        Inl e \<Rightarrow> Inl e
      | Inr s' \<Rightarrow> forEach_sendMessage rest message s')"

definition broadcastToJob :: "string \<Rightarrow> WSOutgoingMessage \<Rightarrow> relay \<Rightarrow> outcome" where
  "broadcastToJob jobId message s =
     (case Map_get (jobSubscriptions s) jobId of
        None \<Rightarrow> Inr s
      | Some subscribers \<Rightarrow> forEach_sendMessage subscribers message s)"

definition status_frame :: "StatusMessage \<Rightarrow> WSOutgoingMessage" where
  "status_frame st =
     \<lparr>out_type = status, out_job_id = Some (sm_job_id st),
      out_data = Some (StatusData st), out_message = None\<rparr>"

definition handleStatusUpdate :: "StatusMessage \<Rightarrow> relay \<Rightarrow> outcome" where
  "handleStatusUpdate st s = broadcastToJob (sm_job_id st) (status_frame st) s"

definition complete_frame :: "CompleteMessage \<Rightarrow> WSOutgoingMessage" where
  "complete_frame c =
     \<lparr>out_type = complete, out_job_id = Some (cm_job_id c),
      out_data = Some (CompleteData c), out_message = None\<rparr>"

definition handleCompleteUpdate :: "CompleteMessage \<Rightarrow> relay \<Rightarrow> outcome" where
  "handleCompleteUpdate c s = broadcastToJob (cm_job_id c) (complete_frame c) s"

definition subscribed_frame :: "string \<Rightarrow> WSOutgoingMessage" where
  "subscribed_frame jobId =
     \<lparr>out_type = subscribed, out_job_id = Some jobId,
      out_data = None, out_message = Some (''Subscribed to job '' @ jobId)\<rparr>"

text \<open>
  \<^verbatim>\<open>subscribeToJob\<close>: create the set when the key is missing, add the connection to the
  set stored under the key, then acknowledge. After the first statement the key is
  present, so the non-null assertion on \<^verbatim>\<open>get\<close> holds; the model keeps the lookup and
  leaves the map alone in the branch the assertion excludes.
\<close>

definition subscribeToJob :: "WS \<Rightarrow> string \<Rightarrow> relay \<Rightarrow> outcome" where
  "subscribeToJob ws jobId s =
     (let m1 = (if \<not> Map_has (jobSubscriptions s) jobId
                then Map_set (jobSubscriptions s) jobId []
                else jobSubscriptions s);
          m2 = (case Map_get m1 jobId of
                  None \<Rightarrow> m1
                | Some subscribers \<Rightarrow> Map_set m1 jobId (Set_add subscribers ws))
      in sendMessage ws (subscribed_frame jobId) (s\<lparr>jobSubscriptions := m2\<rparr>))"

definition unsubscribeFromJob :: "WS \<Rightarrow> string \<Rightarrow> relay \<Rightarrow> relay" where
  "unsubscribeFromJob ws jobId s =
     (case Map_get (jobSubscriptions s) jobId of
        None \<Rightarrow> s
      | Some subscribers \<Rightarrow>
          (let subscribers' = Set_delete subscribers ws;
               m1 = Map_set (jobSubscriptions s) jobId subscribers'
           in if Set_size subscribers' = 0
              then s\<lparr>jobSubscriptions := Map_delete m1 jobId\<rparr>
              else s\<lparr>jobSubscriptions := m1\<rparr>))"

text \<open>
  \<^verbatim>\<open>cleanupConnection\<close>: \<^verbatim>\<open>jobSubscriptions.forEach\<close> walks the entries in insertion
  order. The callback deletes at most the entry it is visiting, which a JavaScript
  \<^verbatim>\<open>Map\<close> allows during \<^verbatim>\<open>forEach\<close>, so the entries visited are the keys present when
  the loop starts. \<^verbatim>\<open>cleanup_callback\<close> is the callback, acting on the map as it is
  when the entry is reached.
\<close>

definition cleanup_callback :: "WS \<Rightarrow> string \<Rightarrow> (string \<times> WS list) list \<Rightarrow> (string \<times> WS list) list" where
  "cleanup_callback ws jobId m =
     (case Map_get m jobId of
        None \<Rightarrow> m
      | Some subscribers \<Rightarrow>
          (let subscribers' = Set_delete subscribers ws;
               m1 = Map_set m jobId subscribers'
           in if Set_size subscribers' = 0 then Map_delete m1 jobId else m1))"

fun cleanup_forEach :: "WS \<Rightarrow> string list \<Rightarrow> (string \<times> WS list) list \<Rightarrow> (string \<times> WS list) list" where
  "cleanup_forEach ws [] m = m"
| "cleanup_forEach ws (jobId # rest) m = cleanup_forEach ws rest (cleanup_callback ws jobId m)"

definition cleanupConnection :: "WS \<Rightarrow> relay \<Rightarrow> relay" where
  "cleanupConnection ws s =
     (let s1 = s\<lparr>allConnections := Set_delete (allConnections s) ws\<rparr>
      in s1\<lparr>jobSubscriptions :=
              cleanup_forEach ws (Map_keys (jobSubscriptions s1)) (jobSubscriptions s1)\<rparr>)"

subsection \<open>The gateway handlers and the bus listeners\<close>

definition ws_open :: "WS \<Rightarrow> relay \<Rightarrow> outcome" where
  "ws_open ws s =
     (let s1 = s\<lparr>allConnections := Set_add (allConnections s) ws\<rparr>
      in Inr (s1\<lparr>console := console s1 @ [Connected (Set_size (allConnections s1))]\<rparr>))"

text \<open>
  \<^verbatim>\<open>if (message.job_id)\<close> is false for a missing \<^verbatim>\<open>job_id\<close> and for the empty string.
\<close>

definition ws_message :: "WS \<Rightarrow> WSMessage \<Rightarrow> relay \<Rightarrow> outcome" where
  "ws_message ws message s =
     (case in_type message of
        subscribe \<Rightarrow>
          (case in_job_id message of
             None \<Rightarrow> Inr s
           | Some jobId \<Rightarrow> if jobId \<noteq> [] then subscribeToJob ws jobId s else Inr s)
      | unsubscribe \<Rightarrow>
          (case in_job_id message of
             None \<Rightarrow> Inr s
           | Some jobId \<Rightarrow> if jobId \<noteq> [] then Inr (unsubscribeFromJob ws jobId s) else Inr s)
      | ping \<Rightarrow>
          sendMessage ws
            \<lparr>out_type = pong, out_job_id = None, out_data = None, out_message = None\<rparr> s)"

definition ws_close :: "WS \<Rightarrow> relay \<Rightarrow> outcome" where
  "ws_close ws s =
     (let s1 = cleanupConnection ws s
      in Inr (s1\<lparr>console := console s1 @ [Disconnected (Set_size (allConnections s1))]\<rparr>))"

text \<open>
  The \<^verbatim>\<open>error\<close> handler exists in one of the two copies of the module only; the
  functions above are the same in both.
\<close>

definition ws_error :: "WS \<Rightarrow> relay \<Rightarrow> outcome" where
  "ws_error ws s =
     Inr (cleanupConnection ws (s\<lparr>console := console s @ [WebSocketError]\<rparr>))"

text \<open>\<^verbatim>\<open>getConnectionStats\<close>: the pair of \<^verbatim>\<open>total\<close> and \<^verbatim>\<open>jobSubscriptions\<close>.\<close>

definition getConnectionStats :: "relay \<Rightarrow> nat \<times> nat" where
  "getConnectionStats s = (Set_size (allConnections s), Map_size (jobSubscriptions s))"

text \<open>
  The callbacks that \<^verbatim>\<open>subscribeToStatus\<close> and \<^verbatim>\<open>subscribeToComplete\<close> register on
  the bus: \<^verbatim>\<open>JSON.parse\<close> throws on a malformed payload (\<open>None\<close> here), and anything
  thrown inside the \<^verbatim>\<open>try\<close> is logged and dropped.
\<close>

definition status_listener :: "StatusMessage option \<Rightarrow> relay \<Rightarrow> outcome" where
  "status_listener parsed s =
     (case parsed of
        None \<Rightarrow> Inr (s\<lparr>console := console s @ [ErrorParsingStatus]\<rparr>)
      | Some st \<Rightarrow>
          (case handleStatusUpdate st s of
             Inl (e, s1) \<Rightarrow> Inr (s1\<lparr>console := console s1 @ [ErrorParsingStatus]\<rparr>)
           | Inr s' \<Rightarrow> Inr s'))"

definition complete_listener :: "CompleteMessage option \<Rightarrow> relay \<Rightarrow> outcome" where
  "complete_listener parsed s =
     (case parsed of
        None \<Rightarrow> Inr (s\<lparr>console := console s @ [ErrorParsingComplete]\<rparr>)
      | Some c \<Rightarrow>
          (case handleCompleteUpdate c s of
             Inl (e, s1) \<Rightarrow> Inr (s1\<lparr>console := console s1 @ [ErrorParsingComplete]\<rparr>)
           | Inr s' \<Rightarrow> Inr s'))"

subsection \<open>Runs of the relay\<close>

text \<open>
  JavaScript runs each handler to completion, so a run of the module is a sequence of
  events: a gateway handler, a bus delivery, or the transport changing a connection
  object.
\<close>

datatype event =
  WsOpen WS
  | WsMessage WS WSMessage
  | WsClose WS
  | WsError WS
  | BusStatus "StatusMessage option"
  | BusComplete "CompleteMessage option"
  | Transport WS socket

fun handle :: "event \<Rightarrow> relay \<Rightarrow> outcome" where
  "handle (WsOpen ws) s = ws_open ws s"
| "handle (WsMessage ws message) s = ws_message ws message s"
| "handle (WsClose ws) s = ws_close ws s"
| "handle (WsError ws) s = ws_error ws s"
| "handle (BusStatus parsed) s = status_listener parsed s"
| "handle (BusComplete parsed) s = complete_listener parsed s"
| "handle (Transport ws sock) s = Inr (s\<lparr>sockets := (sockets s)(ws := sock)\<rparr>)"

fun run :: "event list \<Rightarrow> relay \<Rightarrow> outcome" where
  "run [] s = Inr s"
| "run (e # es) s = (case handle e s of Inl x \<Rightarrow> Inl x | Inr s' \<Rightarrow> run es s')"

inductive reachable :: "relay \<Rightarrow> bool" where
  start: "reachable (init_relay socks)"
| step: "reachable s \<Longrightarrow> handle e s = Inr s' \<Longrightarrow> reachable s'"

text \<open>
  What the containers guarantee by construction in every run: keys are distinct, no set
  repeats a member, and no key holds an empty set.
\<close>

definition registry_ok :: "(string \<times> WS list) list \<Rightarrow> bool" where
  "registry_ok m =
     (distinct (map fst m) \<and> (\<forall>(k, subs) \<in> set m. subs \<noteq> [] \<and> distinct subs))"


subsection \<open>The model catalogue (models.ts)\<close>

datatype provider = openai | anthropic | ollama | google

text \<open>
  The free-text \<^verbatim>\<open>description\<close> and the \<^verbatim>\<open>capabilities\<close> tags of a catalogue entry are
  left out: nothing reads them.
\<close>

record LLMModel =
  lm_id :: string
  lm_name :: string
  lm_provider :: provider
  lm_maxTokens :: nat
  lm_costPer1kTokens :: "rat option"
  lm_isLocal :: bool

definition AVAILABLE_MODELS :: "LLMModel list" where
  "AVAILABLE_MODELS =
     [\<lparr>lm_id = ''gpt-4o'', lm_name = ''GPT-4o'', lm_provider = openai,
       lm_maxTokens = 128000, lm_costPer1kTokens = Some (5 / 1000), lm_isLocal = False\<rparr>,
      \<lparr>lm_id = ''gpt-4o-mini'', lm_name = ''GPT-4o Mini'', lm_provider = openai,
       lm_maxTokens = 128000, lm_costPer1kTokens = Some (15 / 100000), lm_isLocal = False\<rparr>,
      \<lparr>lm_id = ''gpt-4-turbo'', lm_name = ''GPT-4 Turbo'', lm_provider = openai,
       lm_maxTokens = 128000, lm_costPer1kTokens = Some (1 / 100), lm_isLocal = False\<rparr>,
      \<lparr>lm_id = ''claude-3-5-sonnet-20241022'', lm_name = ''Claude 3.5 Sonnet'',
       lm_provider = anthropic,
       lm_maxTokens = 200000, lm_costPer1kTokens = Some (3 / 1000), lm_isLocal = False\<rparr>,
      \<lparr>lm_id = ''claude-3-opus-20240229'', lm_name = ''Claude 3 Opus'',
       lm_provider = anthropic,
       lm_maxTokens = 200000, lm_costPer1kTokens = Some (15 / 1000), lm_isLocal = False\<rparr>,
      \<lparr>lm_id = ''claude-3-haiku-20240307'', lm_name = ''Claude 3 Haiku'',
       lm_provider = anthropic,
       lm_maxTokens = 200000, lm_costPer1kTokens = Some (25 / 100000), lm_isLocal = False\<rparr>,
      \<lparr>lm_id = ''gemini-2.0-flash'', lm_name = ''Gemini 2.0 Flash'', lm_provider = google,
       lm_maxTokens = 1000000, lm_costPer1kTokens = Some (1 / 10000), lm_isLocal = False\<rparr>,
      \<lparr>lm_id = ''gemini-1.5-pro'', lm_name = ''Gemini 1.5 Pro'', lm_provider = google,
       lm_maxTokens = 1000000, lm_costPer1kTokens = Some (125 / 100000), lm_isLocal = False\<rparr>,
      \<lparr>lm_id = ''llama3.2'', lm_name = ''Llama 3.2'', lm_provider = ollama,
       lm_maxTokens = 128000, lm_costPer1kTokens = None, lm_isLocal = True\<rparr>,
      \<lparr>lm_id = ''codellama'', lm_name = ''Code Llama'', lm_provider = ollama,
       lm_maxTokens = 16000, lm_costPer1kTokens = None, lm_isLocal = True\<rparr>,
      \<lparr>lm_id = ''deepseek-coder-v2'', lm_name = ''DeepSeek Coder V2'', lm_provider = ollama,
       lm_maxTokens = 128000, lm_costPer1kTokens = None, lm_isLocal = True\<rparr>,
      \<lparr>lm_id = ''qwen2.5-coder'', lm_name = ''Qwen 2.5 Coder'', lm_provider = ollama,
       lm_maxTokens = 32000, lm_costPer1kTokens = None, lm_isLocal = True\<rparr>]"

definition isValidModel :: "string \<Rightarrow> bool" where
  "isValidModel modelId = list_ex (\<lambda>m. lm_id m = modelId) AVAILABLE_MODELS"

text \<open>
  \<^verbatim>\<open>getDefaultModel\<close> asserts that \<^verbatim>\<open>find\<close> succeeds; \<open>None\<close> is the \<^verbatim>\<open>undefined\<close> that the
  assertion silences, and reading \<^verbatim>\<open>.id\<close> from it throws.
\<close>

definition getDefaultModel :: "LLMModel option" where
  "getDefaultModel = List.find (\<lambda>m. lm_id m = ''gpt-4o-mini'') AVAILABLE_MODELS"

subsection \<open>Repository URLs (routes/repos.ts)\<close>

text \<open>The character classes \<^verbatim>\<open>\\w\<close>, \<^verbatim>\<open>[\\w-]\<close> and \<^verbatim>\<open>[\\w.-]\<close>.\<close>

definition word_char :: "char \<Rightarrow> bool" where
  "word_char c =
     (let n = (of_char c :: nat)
      in (65 \<le> n \<and> n \<le> 90) \<or> (97 \<le> n \<and> n \<le> 122) \<or> (48 \<le> n \<and> n \<le> 57) \<or> n = 95)"

definition owner_char :: "char \<Rightarrow> bool" where
  "owner_char c = (word_char c \<or> c = CHR ''-'')"

definition repo_char :: "char \<Rightarrow> bool" where
  "repo_char c = (word_char c \<or> c = CHR ''.'' \<or> c = CHR ''-'')"

fun strip_prefix :: "string \<Rightarrow> string \<Rightarrow> string option" where
  "strip_prefix [] s = Some s"
| "strip_prefix (p # ps) [] = None"
| "strip_prefix (p # ps) (c # cs) = (if p = c then strip_prefix ps cs else None)"

definition ends_with :: "string \<Rightarrow> string \<Rightarrow> bool" where
  "ends_with suffix s = (length suffix \<le> length s \<and> drop (length s - length suffix) s = suffix)"

text \<open>\<^verbatim>\<open>[\\w.-]+\<close> against a whole string.\<close>

definition repo_plus :: "string \<Rightarrow> bool" where
  "repo_plus s = (s \<noteq> [] \<and> list_all repo_char s)"

text \<open>
  \<^verbatim>\<open>[\\w.-]+(?:\\.git)?$\<close> against a whole string: the optional group matches nothing, or it
  matches a final \<^verbatim>\<open>.git\<close> and the class matches what stands before.
\<close>

definition repo_tail :: "string \<Rightarrow> bool" where
  "repo_tail s =
     (repo_plus s \<or> (ends_with ''.git'' s \<and> repo_plus (take (length s - 4) s)))"

text \<open>\<^verbatim>\<open>[\\w.-]+\\.git$\<close> against a whole string.\<close>

definition repo_tail_git :: "string \<Rightarrow> bool" where
  "repo_tail_git s = (ends_with ''.git'' s \<and> repo_plus (take (length s - 4) s))"

text \<open>
  \<^verbatim>\<open>[\\w-]+\\/\<close> followed by a tail pattern, against a whole string. The class excludes the
  slash, so the first repetition ends at the first character outside the class.
\<close>

definition owner_slash :: "(string \<Rightarrow> bool) \<Rightarrow> string \<Rightarrow> bool" where
  "owner_slash tail s =
     (takeWhile owner_char s \<noteq> [] \<and>
      (case dropWhile owner_char s of
         [] \<Rightarrow> False
       | c # rest \<Rightarrow> c = CHR ''/'' \<and> tail rest))"

definition anchored :: "string \<Rightarrow> (string \<Rightarrow> bool) \<Rightarrow> string \<Rightarrow> bool" where
  "anchored prefix tail url =
     (case strip_prefix prefix url of None \<Rightarrow> False | Some rest \<Rightarrow> owner_slash tail rest)"

definition isValidRepoUrl :: "string \<Rightarrow> bool" where
  "isValidRepoUrl url =
     (anchored ''https://github.com/'' repo_tail url \<or>
      anchored ''https://gitlab.com/'' repo_tail url \<or>
      anchored ''https://bitbucket.org/'' repo_tail url \<or>
      anchored ''git@github.com:'' repo_tail_git url \<or>
      anchored ''git@gitlab.com:'' repo_tail_git url)"

text \<open>
  \<^verbatim>\<open>extractRepoName\<close>: the pattern is anchored at the end only, so the match is the
  longest suffix of the URL that fits; \<^verbatim>\<open>replace\<close> with a string pattern removes the
  first occurrence of \<^verbatim>\<open>.git\<close>.
\<close>

fun first_match :: "string \<Rightarrow> string option" where
  "first_match [] = None"
| "first_match (c # cs) =
     (if owner_slash repo_tail (c # cs) then Some (c # cs) else first_match cs)"

fun remove_first :: "string \<Rightarrow> string \<Rightarrow> string" where
  "remove_first pat [] = []"
| "remove_first pat (c # cs) =
     (case strip_prefix pat (c # cs) of
        Some rest \<Rightarrow> rest
      | None \<Rightarrow> c # remove_first pat cs)"

definition extractRepoName :: "string \<Rightarrow> string" where
  "extractRepoName url =
     (case first_match url of
        Some m \<Rightarrow> remove_first ''.git'' m
      | None \<Rightarrow> ''unknown-repo'')"

subsection \<open>The job store (supabase.ts) and the bus (redis.ts)\<close>

record Job =
  j_id :: string
  j_repo_url :: string
  j_status :: job_status
  j_selected_model :: string
  j_result :: "json option"
  j_error_message :: "string option"
  j_created_at :: string
  j_updated_at :: string

datatype bus_message = JobPayload JobMessage | StatusPayload StatusMessage

datatype js_error =
  PublisherNotInitialized
  | RedisCommandFailed
  | TypeError

datatype server_line =
  ErrorCreatingJob
  | ErrorUpdatingJob
  | FailedToPublish
  | PublishedJob string
  | PushedJob string

text \<open>
  What the request handlers act on. The job store is a remote service: \<open>db_jobs\<close> is its
  table, and \<open>db_faults\<close> scripts its answers, one entry per request in order, \<open>True\<close> for
  a request it answers with an error; once the script is used up it accepts. The
  publisher client is \<^verbatim>\<open>null\<close> until \<^verbatim>\<open>initRedis\<close> has run, and a client whose connection
  is down rejects commands. \<open>redis_lists\<close> are the broker's lists by key, newest entry
  first, and \<open>redis_published\<close> the messages published so far with their channels.
\<close>

record redis_client =
  rc_accepts :: bool

record server =
  db_jobs :: "Job list"
  db_faults :: "bool list"
  publisherClient :: "redis_client option"
  redis_lists :: "(string \<times> JobMessage list) list"
  redis_published :: "(string \<times> bus_message) list"
  server_console :: "server_line list"

definition JOB_QUEUE :: string where
  "JOB_QUEUE = ''code-indexer:jobs''"

definition JOB_STATUS :: string where
  "JOB_STATUS = ''code-indexer:status''"

definition JOB_COMPLETE :: string where
  "JOB_COMPLETE = ''code-indexer:complete''"

text \<open>One request to the job store: whether it is accepted, and the script moved on.\<close>

definition supabase_request :: "server \<Rightarrow> bool \<times> server" where
  "supabase_request a =
     (case db_faults a of
        [] \<Rightarrow> (True, a)
      | fault # later \<Rightarrow> (\<not> fault, a\<lparr>db_faults := later\<rparr>))"

text \<open>
  \<^verbatim>\<open>createJob\<close>: the store assigns the id and the two time stamps of the new row (its
  own \<^verbatim>\<open>NOW()\<close>, the default of both columns); they come in as \<open>uuid\<close> and \<open>now\<close>.
\<close>

definition createJob :: "string \<Rightarrow> string \<Rightarrow> string \<Rightarrow> string \<Rightarrow> server \<Rightarrow> Job option \<times> server" where
  "createJob uuid now repoUrl selectedModel a =
     (case supabase_request a of
        (False, a1) \<Rightarrow> (None, a1\<lparr>server_console := server_console a1 @ [ErrorCreatingJob]\<rparr>)
      | (True, a1) \<Rightarrow>
          (let job = \<lparr>j_id = uuid, j_repo_url = repoUrl, j_status = pending,
                      j_selected_model = selectedModel, j_result = None,
                      j_error_message = None, j_created_at = now, j_updated_at = now\<rparr>
           in (Some job, a1\<lparr>db_jobs := db_jobs a1 @ [job]\<rparr>)))"

text \<open>
  \<^verbatim>\<open>updateJobStatus\<close>: \<open>now\<close> is the \<^verbatim>\<open>new Date()\<close> that this call reads.
  \<^verbatim>\<open>result\<close> and \<^verbatim>\<open>error_message\<close> enter the update only when truthy, which for the
  message excludes the empty string. The update applies to the rows whose id is
  \<open>jobId\<close>.
\<close>

definition apply_update :: "string \<Rightarrow> job_status \<Rightarrow> json option \<Rightarrow> string option \<Rightarrow> Job \<Rightarrow> Job" where
  "apply_update now st result errorMessage j =
     (let j1 = j\<lparr>j_status := st, j_updated_at := now\<rparr>;
          j2 = (case result of None \<Rightarrow> j1 | Some r \<Rightarrow> j1\<lparr>j_result := Some r\<rparr>)
      in case errorMessage of
           None \<Rightarrow> j2
         | Some e \<Rightarrow> if e \<noteq> [] then j2\<lparr>j_error_message := Some e\<rparr> else j2)"

definition updateJobStatus ::
  "string \<Rightarrow> string \<Rightarrow> job_status \<Rightarrow> json option \<Rightarrow> string option \<Rightarrow> server \<Rightarrow> bool \<times> server" where
  "updateJobStatus now jobId st result errorMessage a =
     (case supabase_request a of
        (False, a1) \<Rightarrow> (False, a1\<lparr>server_console := server_console a1 @ [ErrorUpdatingJob]\<rparr>)
      | (True, a1) \<Rightarrow>
          (True, a1\<lparr>db_jobs :=
                      map (\<lambda>j. if j_id j = jobId then apply_update now st result errorMessage j
                               else j) (db_jobs a1)\<rparr>))"

definition getPublisher :: "server \<Rightarrow> js_error + redis_client" where
  "getPublisher a =
     (case publisherClient a of None \<Rightarrow> Inl PublisherNotInitialized | Some client \<Rightarrow> Inr client)"

definition publishJob :: "JobMessage \<Rightarrow> server \<Rightarrow> (js_error \<times> server) + server" where
  "publishJob job a =
     (case getPublisher a of
        Inl e \<Rightarrow> Inl (e, a)
      | Inr publisher \<Rightarrow>
          if \<not> rc_accepts publisher then Inl (RedisCommandFailed, a)
          else Inr (a\<lparr>redis_published := redis_published a @ [(JOB_QUEUE, JobPayload job)],
                      server_console := server_console a @ [PublishedJob (jm_job_id job)]\<rparr>))"

definition publishStatus :: "StatusMessage \<Rightarrow> server \<Rightarrow> (js_error \<times> server) + server" where
  "publishStatus st a =
     (case getPublisher a of
        Inl e \<Rightarrow> Inl (e, a)
      | Inr publisher \<Rightarrow>
          if \<not> rc_accepts publisher then Inl (RedisCommandFailed, a)
          else Inr (a\<lparr>redis_published := redis_published a @ [(JOB_STATUS, StatusPayload st)]\<rparr>))"

text \<open>\<^verbatim>\<open>pushJobToQueue\<close>: \<^verbatim>\<open>lPush\<close> puts the descriptor at the head of the list.\<close>

definition pushJobToQueue :: "JobMessage \<Rightarrow> server \<Rightarrow> (js_error \<times> server) + server" where
  "pushJobToQueue job a =
     (case getPublisher a of
        Inl e \<Rightarrow> Inl (e, a)
      | Inr publisher \<Rightarrow>
          if \<not> rc_accepts publisher then Inl (RedisCommandFailed, a)
          else Inr (a\<lparr>redis_lists :=
                        Map_set (redis_lists a) JOB_QUEUE
                          (job # (case Map_get (redis_lists a) JOB_QUEUE of
                                    None \<Rightarrow> [] | Some entries \<Rightarrow> entries)),
                      server_console := server_console a @ [PushedJob (jm_job_id job)]\<rparr>))"

subsection \<open>Job submission (routes/repos.ts, \<^verbatim>\<open>POST /repos\<close>)\<close>

record queued =
  q_job_id :: string
  q_repo_url :: string
  q_repo_name :: string
  q_selected_model :: string
  q_status :: string
  q_message :: string

datatype reply = Failure string | Success queued

record response =
  http_status :: nat
  reply :: reply

text \<open>
  The times a submission reads, in the order it reads them: the store's own clock when
  it inserts the row, \<^verbatim>\<open>new Date()\<close> inside the \<^verbatim>\<open>updateJobStatus\<close> that sets the job
  to processing, \<^verbatim>\<open>new Date()\<close> for the time stamp of the queued descriptor, and
  \<^verbatim>\<open>new Date()\<close> inside the \<^verbatim>\<open>updateJobStatus\<close> of the \<^verbatim>\<open>catch\<close> block.
\<close>

record clock =
  at_insert :: string
  at_processing :: string
  at_descriptor :: string
  at_failed :: string

text \<open>
  The handler of \<^verbatim>\<open>POST /repos\<close>. \<open>uuid\<close> is the id the store gives the new row and
  \<open>clk\<close> holds the clock readings. \<^verbatim>\<open>set.status\<close> starts at 200.
\<close>

definition default_model_id :: "js_error + string" where
  "default_model_id =
     (case getDefaultModel of None \<Rightarrow> Inl TypeError | Some m \<Rightarrow> Inr (lm_id m))"

text \<open>
  \<^verbatim>\<open>model_id && isValidModel(model_id) ? model_id : getDefaultModel().id\<close>; the default is
  looked up only when it is needed.
\<close>

definition selected_model :: "string option \<Rightarrow> js_error + string" where
  "selected_model model_id =
     (case model_id of
        None \<Rightarrow> default_model_id
      | Some m \<Rightarrow> if m \<noteq> [] \<and> isValidModel m then Inr m else default_model_id)"

definition post_repos ::
  "string \<Rightarrow> clock \<Rightarrow> string \<Rightarrow> string option \<Rightarrow> server \<Rightarrow> (js_error \<times> server) + (response \<times> server)" where
  "post_repos uuid clk repo_url model_id a =
     (if \<not> isValidRepoUrl repo_url
      then Inr (\<lparr>http_status = 400,
                  reply = Failure ''Invalid repository URL. Supported: GitHub, GitLab, Bitbucket''\<rparr>, a)
      else
        (case selected_model model_id of
           Inl e \<Rightarrow> Inl (e, a)
         | Inr selectedModel \<Rightarrow>
             (case createJob uuid (at_insert clk) repo_url selectedModel a of
                (None, a1) \<Rightarrow>
                  Inr (\<lparr>http_status = 500, reply = Failure ''Failed to create job''\<rparr>, a1)
              | (Some job, a1) \<Rightarrow>
                  (let a2 = snd (updateJobStatus (at_processing clk) (j_id job) processing
                                   None None a1)
                   in case pushJobToQueue
                             \<lparr>jm_job_id = j_id job, jm_repo_url = repo_url,
                              jm_selected_model = selectedModel,
                              jm_timestamp = at_descriptor clk\<rparr> a2 of
                        Inl (e, a3) \<Rightarrow>
                          (let a4 = a3\<lparr>server_console := server_console a3 @ [FailedToPublish]\<rparr>;
                               a5 = snd (updateJobStatus (at_failed clk) (j_id job) failed None
                                           (Some ''Failed to queue job'') a4)
                           in Inr (\<lparr>http_status = 500,
                                     reply = Failure ''Failed to queue job for processing''\<rparr>, a5))
                      | Inr a3 \<Rightarrow>
                          Inr (\<lparr>http_status = 200,
                                reply = Success
                                  \<lparr>q_job_id = j_id job, q_repo_url = repo_url,
                                   q_repo_name = extractRepoName repo_url,
                                   q_selected_model = selectedModel,
                                   q_status = ''processing'',
                                   q_message = ''Repository queued for analysis''\<rparr>\<rparr>, a3)))))"

subsection \<open>Reading the server state\<close>

text \<open>
  Whether the job store accepts the request that comes \<open>n\<close> requests from now, and
  whether a write to the bus raises: the publisher is missing, or its connection rejects
  commands.
\<close>

definition store_accepts :: "nat \<Rightarrow> server \<Rightarrow> bool" where
  "store_accepts n a = (case drop n (db_faults a) of [] \<Rightarrow> True | fault # later \<Rightarrow> \<not> fault)"

definition enqueue_fails :: "server \<Rightarrow> bool" where
  "enqueue_fails a = (case publisherClient a of None \<Rightarrow> True | Some client \<Rightarrow> \<not> rc_accepts client)"

text \<open>
  A server whose bus rejects commands while the job store works, and the clock readings
  of one submission.
\<close>

definition bus_down :: server where
  "bus_down =
     \<lparr>db_jobs = [], db_faults = [], publisherClient = Some \<lparr>rc_accepts = False\<rparr>,
      redis_lists = [], redis_published = [], server_console = []\<rparr>"

definition ticks :: clock where
  "ticks =
     \<lparr>at_insert = ''2025-01-01T10:00:00.000Z'', at_processing = ''2025-01-01T10:00:00.120Z'',
      at_descriptor = ''2025-01-01T10:00:00.250Z'', at_failed = ''2025-01-01T10:00:00.300Z''\<rparr>"

subsection \<open>Reading the registry\<close>

text \<open>
  The observer set of a job, as \<^verbatim>\<open>broadcastToJob\<close> reads it: the set stored under the
  key, and no observer when the key is missing.
\<close>

definition members :: "(string \<times> WS list) list \<Rightarrow> string \<Rightarrow> WS list" where
  "members m jobId = (case Map_get m jobId of None \<Rightarrow> [] | Some subscribers \<Rightarrow> subscribers)"

text \<open>
  The cleanup loop in closed form: the connection is taken out of every set, and the
  entries left without a member are gone.
\<close>

definition swept :: "WS \<Rightarrow> (string \<times> WS list) list \<Rightarrow> (string \<times> WS list) list" where
  "swept ws m =
     filter (\<lambda>(k, subs). subs \<noteq> []) (map (\<lambda>(k, subs). (k, removeAll ws subs)) m)"

text \<open>A frame reaches the transport when the connection is open and its \<^verbatim>\<open>send\<close> does not throw.\<close>

definition deliverable :: "relay \<Rightarrow> WS \<Rightarrow> bool" where
  "deliverable s ws = (readyState (sockets s ws) = 1 \<and> \<not> send_throws (sockets s ws))"

subsection \<open>Two scenarios\<close>

definition open_socket :: socket where
  "open_socket = \<lparr>readyState = 1, send_throws = False\<rparr>"

definition closed_socket :: socket where
  "closed_socket = \<lparr>readyState = 3, send_throws = False\<rparr>"

definition subscribe_to :: "string \<Rightarrow> WSMessage" where
  "subscribe_to jobId = \<lparr>in_type = subscribe, in_job_id = Some jobId\<rparr>"

definition unsubscribe_from :: "string \<Rightarrow> WSMessage" where
  "unsubscribe_from jobId = \<lparr>in_type = unsubscribe, in_job_id = Some jobId\<rparr>"

text \<open>Connections 1 and 2 watch job J1 and connection 3 watches job J2; all are open.\<close>

definition watching_events :: "event list" where
  "watching_events =
     [WsOpen 1, WsOpen 2, WsOpen 3,
      WsMessage 1 (subscribe_to ''J1''), WsMessage 2 (subscribe_to ''J1''),
      WsMessage 3 (subscribe_to ''J2'')]"

definition watching :: relay where
  "watching =
     \<lparr>jobSubscriptions = [(''J1'', [1, 2]), (''J2'', [3])],
      allConnections = [1, 2, 3],
      sockets = (\<lambda>w. open_socket),
      wire = [(1, subscribed_frame ''J1''), (2, subscribed_frame ''J1''),
              (3, subscribed_frame ''J2'')],
      console = [Connected 1, Connected 2, Connected 3]\<rparr>"

text \<open>
  Connection 1 watches J1 and connection 2 watches J1 and J2; then the transport closes
  connection 1, and the \<^verbatim>\<open>close\<close> handler has not run yet.
\<close>

definition dropped_events :: "event list" where
  "dropped_events =
     [WsOpen 1, WsOpen 2,
      WsMessage 1 (subscribe_to ''J1''), WsMessage 2 (subscribe_to ''J1''),
      WsMessage 2 (subscribe_to ''J2''), Transport 1 closed_socket]"

definition dropped :: relay where
  "dropped =
     \<lparr>jobSubscriptions = [(''J1'', [1, 2]), (''J2'', [2])],
      allConnections = [1, 2],
      sockets = (\<lambda>w. open_socket)(1 := closed_socket),
      wire = [(1, subscribed_frame ''J1''), (2, subscribed_frame ''J1''),
              (2, subscribed_frame ''J2'')],
      console = [Connected 1, Connected 2]\<rparr>"


text \<open>The status event of the end-to-end scenario: job J1 is half done.\<close>

definition progress_event :: StatusMessage where
  "progress_event =
     \<lparr>sm_job_id = ''J1'', sm_status = processing, sm_message = None,
      sm_progress = Some 50, sm_timestamp = ''2025-01-01T00:00:00.000Z''\<rparr>"

section \<open>Sending\<close>

lemma sendMessage_cases:
  "sendMessage ws message s =
     Inr (if readyState (sockets s ws) = 1
          then (if send_throws (sockets s ws)
                then s\<lparr>console := console s @ [ErrorSending]\<rparr>
                else s\<lparr>wire := wire s @ [(ws, message)]\<rparr>)
          else s)"
  by (simp add: sendMessage_def ws_send_def)

lemma sendMessage_frame:
  assumes "sendMessage ws message s = Inr s'"
  shows "jobSubscriptions s' = jobSubscriptions s"
    and "allConnections s' = allConnections s"
    and "sockets s' = sockets s"
  using assms by (auto simp: sendMessage_cases split: if_splits)

lemma sendMessage_wire:
  assumes "sendMessage ws message s = Inr s'"
  shows "wire s' = wire s @ (if deliverable s ws then [(ws, message)] else [])"
  using assms by (auto simp: sendMessage_cases deliverable_def split: if_splits)

section \<open>The containers\<close>


lemma Map_set_append_miss:
  "k \<notin> fst ` set pre \<Longrightarrow> Map_set (pre @ (k, u) # post) k v = pre @ (k, v) # post"
  unfolding Map_set_def by (induction pre) auto

lemma Map_delete_append_only:
  "k \<notin> fst ` set pre \<Longrightarrow> k \<notin> fst ` set post \<Longrightarrow>
     Map_delete (pre @ (k, u) # post) k = pre @ post"
  unfolding Map_delete_def by (induction pre) auto

lemma Map_get_append_miss:
  "k \<notin> fst ` set pre \<Longrightarrow> Map_get (pre @ (k, u) # post) k = Some u"
  unfolding Map_get_def by (induction pre) auto

lemma cleanup_forEach_append:
  "distinct (map fst (pre @ m)) \<Longrightarrow>
     cleanup_forEach ws (map fst m) (pre @ m) = pre @ swept ws m"
proof (induction m arbitrary: pre)
  case Nil
  then show ?case by (simp add: swept_def)
next
  case (Cons a m)
  obtain k u where a: "a = (k, u)" by (cases a)
  from Cons.prems a have kpre: "k \<notin> fst ` set pre" and km: "k \<notin> fst ` set m"
    and dist: "distinct (map fst (pre @ m))"
    by auto
  show ?case
  proof (cases "removeAll ws u = []")
    case True
    have "cleanup_callback ws k (pre @ a # m) = pre @ m"
      using True kpre km
      by (simp add: cleanup_callback_def Set_delete_def Set_size_def a
          Map_get_append_miss Map_set_append_miss Map_delete_append_only)
    then show ?thesis using Cons.IH[OF dist] True by (simp add: a swept_def)
  next
    case False
    have cb: "cleanup_callback ws k (pre @ a # m) = (pre @ [(k, removeAll ws u)]) @ m"
      using False kpre
      by (simp add: cleanup_callback_def Set_delete_def Set_size_def a
          Map_get_append_miss Map_set_append_miss)
    have "distinct (map fst ((pre @ [(k, removeAll ws u)]) @ m))"
      using Cons.prems a by auto
    from Cons.IH[OF this] cb False show ?thesis by (simp add: a swept_def)
  qed
qed

lemma cleanup_forEach_swept:
  "distinct (map fst m) \<Longrightarrow> cleanup_forEach ws (Map_keys m) m = swept ws m"
  using cleanup_forEach_append[of "[]" m ws] by (simp add: Map_keys_def)

lemma swept_keys_subset: "fst ` set (swept ws m) \<subseteq> fst ` set m"
  by (force simp: swept_def)

lemma swept_keys: "distinct (map fst m) \<Longrightarrow> distinct (map fst (swept ws m))"
proof (induction m)
  case Nil
  then show ?case by (simp add: swept_def)
next
  case (Cons a m)
  have "fst a \<notin> fst ` set (swept ws m)" using Cons.prems swept_keys_subset[of ws m] by auto
  moreover have "distinct (map fst (swept ws m))" using Cons by simp
  moreover have "swept ws (a # m) = (if removeAll ws (snd a) = [] then swept ws m else (fst a, removeAll ws (snd a)) # swept ws m)"
    by (cases a) (simp add: swept_def)
  ultimately show ?case by simp
qed

lemma swept_idem: "swept ws (swept ws m) = swept ws m"
  by (induction m) (auto simp: swept_def)

lemma registry_ok_swept: "registry_ok m \<Longrightarrow> registry_ok (swept ws m)"
  unfolding registry_ok_def
  apply (intro conjI)
  apply (simp add: swept_keys)
  apply (auto simp: swept_def distinct_removeAll)
  done

lemma swept_Map_get_miss: "Map_get m k = None \<Longrightarrow> Map_get (swept ws m) k = None"
  using swept_keys_subset[of ws m] by (auto simp: Map_get_def map_of_eq_None_iff)

lemma swept_Map_get:
  "distinct (map fst m) \<Longrightarrow>
   Map_get (swept ws m) k =
     (case Map_get m k of None \<Rightarrow> None
      | Some subs \<Rightarrow> if removeAll ws subs = [] then None else Some (removeAll ws subs))"
proof (induction m)
  case Nil
  then show ?case by (simp add: swept_def Map_get_def)
next
  case (Cons a m)
  obtain j u where a: "a = (j, u)" by (cases a)
  have sw: "swept ws (a # m) = (if removeAll ws u = [] then swept ws m else (j, removeAll ws u) # swept ws m)"
    by (simp add: swept_def a)
  show ?case
  proof (cases "k = j")
    case True
    with Cons.prems a have "Map_get m k = None" by (auto simp: Map_get_def map_of_eq_None_iff)
    from swept_Map_get_miss[OF this] have "Map_get (swept ws m) k = None" .
    then show ?thesis using True unfolding sw by (simp add: a Map_get_def)
  next
    case False
    then show ?thesis using Cons unfolding sw by (simp add: a Map_get_def)
  qed
qed

lemma swept_noop:
  "\<forall>(k, subs) \<in> set m. ws \<notin> set subs \<and> subs \<noteq> [] \<Longrightarrow> swept ws m = m"
  by (induction m) (auto simp: swept_def)



lemma Map_get_Map_set: "Map_get (Map_set m k v) k' = (if k' = k then Some v else Map_get m k')"
  by (simp add: Map_get_def Map_set_def update_conv')

lemma Map_get_Map_delete: "Map_get (Map_delete m k) k' = (if k' = k then None else Map_get m k')"
  by (simp add: Map_get_def Map_delete_def delete_conv')

lemma Map_set_twice: "Map_set (Map_set m k u) k v = Map_set m k v"
  by (simp add: Map_set_def)

lemma Map_delete_Map_set: "Map_delete (Map_set m k v) k = Map_delete m k"
  by (simp add: Map_set_def Map_delete_def delete_update_same)

lemma Map_set_same: "Map_get m k = Some v \<Longrightarrow> Map_set m k v = m"
  by (simp add: Map_get_def Map_set_def update_triv)

lemma Map_delete_absent: "Map_get m k = None \<Longrightarrow> Map_delete m k = m"
  by (simp add: Map_get_def Map_delete_def map_of_eq_None_iff)

lemma set_Map_set: "set (Map_set m k v) \<subseteq> insert (k, v) (set m)"
  unfolding Map_set_def by (induction m) auto

lemma set_Map_delete: "set (Map_delete m k) \<subseteq> set m"
  by (auto simp: Map_delete_def AList.delete_eq)

lemma registry_ok_Map_set:
  assumes "registry_ok m" "v \<noteq> []" "distinct v"
  shows "registry_ok (Map_set m k v)"
proof -
  have "distinct (map fst (Map_set m k v))"
    using assms(1) by (simp add: registry_ok_def Map_set_def distinct_update)
  moreover have "\<forall>(j, subs) \<in> set (Map_set m k v). subs \<noteq> [] \<and> distinct subs"
    using assms set_Map_set[of m k v] by (auto simp: registry_ok_def)
  ultimately show ?thesis by (simp add: registry_ok_def)
qed

lemma registry_ok_Map_delete:
  assumes "registry_ok m"
  shows "registry_ok (Map_delete m k)"
proof -
  have "distinct (map fst (Map_delete m k))"
    using assms by (simp add: registry_ok_def Map_delete_def distinct_delete)
  moreover have "\<forall>(j, subs) \<in> set (Map_delete m k). subs \<noteq> [] \<and> distinct subs"
    using assms set_Map_delete[of m k] by (auto simp: registry_ok_def)
  ultimately show ?thesis by (simp add: registry_ok_def)
qed

lemma registry_ok_Map_get:
  "registry_ok m \<Longrightarrow> Map_get m k = Some subs \<Longrightarrow> subs \<noteq> [] \<and> distinct subs"
  by (auto simp: registry_ok_def Map_get_def dest!: map_of_SomeD)

lemma Set_add_props: "Set_add xs x \<noteq> [] \<and> (distinct xs \<longrightarrow> distinct (Set_add xs x)) \<and> set (Set_add xs x) = insert x (set xs)"
  by (auto simp: Set_add_def Set_has_def)

lemma subscribed_registry:
  "(if \<not> Map_has m jobId then Map_set m jobId [] else m) = m1 \<Longrightarrow>
   (case Map_get m1 jobId of None \<Rightarrow> m1 | Some subscribers \<Rightarrow> Map_set m1 jobId (Set_add subscribers ws))
     = Map_set m jobId (Set_add (members m jobId) ws)"
  by (auto simp: Map_has_def members_def Map_get_Map_set Map_set_twice split: option.splits)

lemma subscribeToJob_registry:
  assumes "subscribeToJob ws jobId s = Inr s'"
  shows "jobSubscriptions s' =
           Map_set (jobSubscriptions s) jobId (Set_add (members (jobSubscriptions s) jobId) ws)"
proof -
  let ?m = "jobSubscriptions s"
  let ?m2 = "Map_set ?m jobId (Set_add (members ?m jobId) ws)"
  have "subscribeToJob ws jobId s = sendMessage ws (subscribed_frame jobId) (s\<lparr>jobSubscriptions := ?m2\<rparr>)"
    unfolding subscribeToJob_def Let_def using subscribed_registry[OF refl, of ?m jobId ws] by simp
  with assms sendMessage_frame(1)[of ws "subscribed_frame jobId" "s\<lparr>jobSubscriptions := ?m2\<rparr>" s']
  show ?thesis by simp
qed

lemma subscribeToJob_total: "\<exists>s'. subscribeToJob ws jobId s = Inr s'"
  by (simp add: subscribeToJob_def Let_def sendMessage_cases)

lemma unsubscribeFromJob_registry:
  "jobSubscriptions (unsubscribeFromJob ws jobId s) =
     (case Map_get (jobSubscriptions s) jobId of
        None \<Rightarrow> jobSubscriptions s
      | Some subscribers \<Rightarrow>
          if removeAll ws subscribers = [] then Map_delete (jobSubscriptions s) jobId
          else Map_set (jobSubscriptions s) jobId (removeAll ws subscribers))"
  by (simp add: unsubscribeFromJob_def Let_def Set_delete_def Set_size_def Map_delete_Map_set
      split: option.splits)

lemma cleanupConnection_registry:
  "distinct (map fst (jobSubscriptions s)) \<Longrightarrow>
     jobSubscriptions (cleanupConnection ws s) = swept ws (jobSubscriptions s)"
  by (simp add: cleanupConnection_def Let_def cleanup_forEach_swept)

lemma registry_ok_subscribe:
  assumes "registry_ok (jobSubscriptions s)" "subscribeToJob ws jobId s = Inr s'"
  shows "registry_ok (jobSubscriptions s')"
proof -
  have "distinct (members (jobSubscriptions s) jobId)"
    using assms(1) registry_ok_Map_get[of "jobSubscriptions s" jobId]
    by (auto simp: members_def split: option.splits)
  then show ?thesis
    unfolding subscribeToJob_registry[OF assms(2)]
    using Set_add_props[of "members (jobSubscriptions s) jobId" ws] assms(1)
    by (intro registry_ok_Map_set) auto
qed

lemma registry_ok_unsubscribe:
  assumes "registry_ok (jobSubscriptions s)"
  shows "registry_ok (jobSubscriptions (unsubscribeFromJob ws jobId s))"
proof (cases "Map_get (jobSubscriptions s) jobId")
  case None
  then show ?thesis using assms by (simp add: unsubscribeFromJob_registry)
next
  case (Some subs)
  with assms registry_ok_Map_get have "distinct subs" by blast
  then have "distinct (removeAll ws subs)" by (simp add: distinct_removeAll)
  then show ?thesis
    using assms Some
    by (simp add: unsubscribeFromJob_registry registry_ok_Map_set registry_ok_Map_delete)
qed

lemma registry_ok_cleanup:
  assumes "registry_ok (jobSubscriptions s)"
  shows "registry_ok (jobSubscriptions (cleanupConnection ws s))"
  using assms registry_ok_swept[of "jobSubscriptions s" ws]
  by (simp add: cleanupConnection_registry registry_ok_def)

lemma forEach_sendMessage_total:
  "\<exists>s'. forEach_sendMessage subs message s = Inr s' \<and>
     jobSubscriptions s' = jobSubscriptions s \<and> allConnections s' = allConnections s \<and>
     sockets s' = sockets s"
proof (induction subs arbitrary: s)
  case Nil
  then show ?case by simp
next
  case (Cons w subs)
  obtain s1 where s1: "sendMessage w message s = Inr s1"
    by (simp add: sendMessage_cases)
  from sendMessage_frame[OF s1] Cons.IH[of s1] s1 show ?case by auto
qed

lemma forEach_sendMessage_wire:
  "forEach_sendMessage subs message s = Inr s' \<Longrightarrow>
     wire s' = wire s @ map (\<lambda>w. (w, message)) (filter (deliverable s) subs)"
proof (induction subs arbitrary: s)
  case Nil
  then show ?case by simp
next
  case (Cons w subs)
  obtain s1 where s1: "sendMessage w message s = Inr s1"
    by (simp add: sendMessage_cases)
  have socks: "sockets s1 = sockets s" using sendMessage_frame[OF s1] by simp
  have d: "deliverable s1 = deliverable s" by (rule ext) (simp add: deliverable_def socks)
  from Cons.prems s1 have "forEach_sendMessage subs message s1 = Inr s'" by simp
  from Cons.IH[OF this] show ?case by (simp add: sendMessage_wire[OF s1] d)
qed

lemma broadcastToJob_total:
  "\<exists>s'. broadcastToJob jobId message s = Inr s' \<and>
     jobSubscriptions s' = jobSubscriptions s \<and> allConnections s' = allConnections s \<and>
     sockets s' = sockets s"
  using forEach_sendMessage_total by (simp add: broadcastToJob_def split: option.splits)

lemma handle_total: "\<exists>s'. handle e s = Inr s'"
proof (cases e)
  case (WsMessage ws message)
  then show ?thesis
    using subscribeToJob_total[of ws _ s]
    by (cases "in_type message")
      (auto simp: ws_message_def sendMessage_cases split: option.splits)
next
  case (BusStatus parsed)
  then show ?thesis
    using broadcastToJob_total[of _ _ s]
    by (cases parsed) (auto simp: status_listener_def handleStatusUpdate_def split: sum.splits)
next
  case (BusComplete parsed)
  then show ?thesis
    using broadcastToJob_total[of _ _ s]
    by (cases parsed) (auto simp: complete_listener_def handleCompleteUpdate_def split: sum.splits)
qed (simp_all add: ws_open_def ws_close_def ws_error_def Let_def)

lemma handle_registry_ok:
  assumes "registry_ok (jobSubscriptions s)" "handle e s = Inr s'"
  shows "registry_ok (jobSubscriptions s')"
proof (cases e)
  case (WsOpen ws)
  with assms show ?thesis by (auto simp: ws_open_def Let_def)
next
  case (WsMessage ws message)
  show ?thesis
  proof (cases "in_type message")
    case subscribe
    with assms WsMessage show ?thesis
      by (auto simp: ws_message_def registry_ok_subscribe split: option.splits if_splits)
  next
    case unsubscribe
    with assms WsMessage show ?thesis
      by (auto simp: ws_message_def registry_ok_unsubscribe split: option.splits if_splits)
  next
    case ping
    with assms WsMessage show ?thesis
      by (auto simp: ws_message_def dest: sendMessage_frame(1))
  qed
next
  case (WsClose ws)
  with assms show ?thesis
    using registry_ok_cleanup[of s ws] by (auto simp: ws_close_def Let_def)
next
  case (WsError ws)
  with assms show ?thesis
    using registry_ok_cleanup[of "s\<lparr>console := console s @ [WebSocketError]\<rparr>" ws]
    by (auto simp: ws_error_def)
next
  case (BusStatus parsed)
  show ?thesis
  proof (cases parsed)
    case None
    with assms BusStatus show ?thesis by (auto simp: status_listener_def)
  next
    case (Some st)
    from broadcastToJob_total[of "sm_job_id st" "status_frame st" s]
    show ?thesis using assms BusStatus Some
      by (auto simp: status_listener_def handleStatusUpdate_def)
  qed
next
  case (BusComplete parsed)
  show ?thesis
  proof (cases parsed)
    case None
    with assms BusComplete show ?thesis by (auto simp: complete_listener_def)
  next
    case (Some c)
    from broadcastToJob_total[of "cm_job_id c" "complete_frame c" s]
    show ?thesis using assms BusComplete Some
      by (auto simp: complete_listener_def handleCompleteUpdate_def)
  qed
next
  case (Transport ws sock)
  with assms show ?thesis by auto
qed

lemma reachable_registry_ok: "reachable s \<Longrightarrow> registry_ok (jobSubscriptions s)"
proof (induction rule: reachable.induct)
  case (start socks)
  show ?case by (simp add: init_relay_def registry_ok_def)
next
  case (step s e s')
  then show ?case using handle_registry_ok by blast
qed


section \<open>Scenarios\<close>


lemmas container_defs =
  Map_get_def Map_has_def Map_set_def Map_delete_def Map_keys_def
  Set_has_def Set_add_def Set_delete_def Set_size_def

lemma run_watching: "run watching_events (init_relay (\<lambda>w. open_socket)) = Inr watching"
  by (simp add: watching_events_def watching_def init_relay_def ws_open_def ws_message_def
      subscribe_to_def subscribeToJob_def sendMessage_cases open_socket_def container_defs Let_def)

lemma run_dropped: "run dropped_events (init_relay (\<lambda>w. open_socket)) = Inr dropped"
  by (simp add: dropped_events_def dropped_def init_relay_def ws_open_def ws_message_def
      subscribe_to_def subscribeToJob_def sendMessage_cases open_socket_def container_defs Let_def)

lemma reachable_run_from: "reachable s \<Longrightarrow> run es s = Inr s' \<Longrightarrow> reachable s'"
proof (induction es arbitrary: s)
  case Nil
  then show ?case by simp
next
  case (Cons e es)
  then obtain s1 where s1: "handle e s = Inr s1" and rest: "run es s1 = Inr s'"
    by (auto split: sum.splits)
  from Cons.prems(1) s1 have "reachable s1" by (rule reachable.step)
  from Cons.IH[OF this rest] show ?case .
qed

lemma reachable_run: "run es (init_relay socks) = Inr s \<Longrightarrow> reachable s"
  using reachable_run_from[OF reachable.start] .

lemma reachable_watching: "reachable watching"
  using run_watching by (rule reachable_run)

lemma reachable_dropped: "reachable dropped"
  using run_dropped by (rule reachable_run)


section \<open>Registry operations in closed form\<close>

lemma members_Map_set: "members (Map_set m k v) k' = (if k' = k then v else members m k')"
  by (simp add: members_def Map_get_Map_set)

lemma members_swept:
  "distinct (map fst m) \<Longrightarrow> members (swept ws m) k = removeAll ws (members m k)"
  by (simp add: members_def swept_Map_get split: option.splits)

lemma Map_has_members: "registry_ok m \<Longrightarrow> Map_has m k = (members m k \<noteq> [])"
  using registry_ok_Map_get[of m k]
  by (auto simp: Map_has_def members_def split: option.splits)

lemma members_distinct: "registry_ok m \<Longrightarrow> distinct (members m k)"
  using registry_ok_Map_get[of m k] by (auto simp: members_def split: option.splits)

lemma members_unsubscribe:
  "members (jobSubscriptions (unsubscribeFromJob ws jobId s)) k =
     (if k = jobId then removeAll ws (members (jobSubscriptions s) k)
      else members (jobSubscriptions s) k)"
  by (auto simp: unsubscribeFromJob_registry members_def Map_get_Map_set Map_get_Map_delete
      split: option.splits)

lemma Set_add_twice: "Set_add (Set_add xs x) x = Set_add xs x"
  by (simp add: Set_add_def Set_has_def)

lemma count_Set_add: "distinct xs \<Longrightarrow> count_list (Set_add xs x) x = 1"
  by (induction xs) (auto simp: Set_add_def Set_has_def split: if_splits)

lemma Set_add_only: "distinct xs \<Longrightarrow> set xs \<subseteq> {x} \<Longrightarrow> Set_add xs x = [x]"
proof (cases xs)
  case Nil
  then show ?thesis by (simp add: Set_add_def Set_has_def)
next
  case (Cons y ys)
  assume d: "distinct xs" and sub: "set xs \<subseteq> {x}"
  from sub Cons have y: "y = x" by simp
  have "ys = []"
  proof (cases ys)
    case Nil
    then show ?thesis .
  next
    case (Cons z zs)
    with sub \<open>xs = y # ys\<close> have "z = x" by simp
    with d y \<open>xs = y # ys\<close> Cons show ?thesis by simp
  qed
  with Cons y show ?thesis by (simp add: Set_add_def Set_has_def)
qed

lemma registry_entry_members:
  assumes "registry_ok m" "(k, subs) \<in> set m"
  shows "members m k = subs"
  using assms by (simp add: registry_ok_def members_def Map_get_def)

lemma swept_untouched:
  assumes "registry_ok m" "\<forall>k. ws \<notin> set (members m k)"
  shows "swept ws m = m"
proof (rule swept_noop)
  show "\<forall>(k, subs) \<in> set m. ws \<notin> set subs \<and> subs \<noteq> []"
  proof (clarify, rule conjI)
    fix k subs assume e: "(k, subs) \<in> set m"
    from registry_entry_members[OF assms(1) e] assms(2) show "ws \<notin> set subs" by metis
    from assms(1) e show "subs \<noteq> []" by (auto simp: registry_ok_def)
  qed
qed

lemma cleanupConnection_eq:
  "distinct (map fst (jobSubscriptions s)) \<Longrightarrow>
   cleanupConnection ws s =
     s\<lparr>allConnections := removeAll ws (allConnections s),
       jobSubscriptions := swept ws (jobSubscriptions s)\<rparr>"
  by (simp add: cleanupConnection_def Let_def cleanup_forEach_swept Set_delete_def)

lemma frames_of_one:
  "distinct xs \<Longrightarrow>
   filter (\<lambda>(w, f). w = ws) (map (\<lambda>w. (w, m)) (filter P xs)) =
     (if ws \<in> set xs \<and> P ws then [(ws, m)] else [])"
proof (induction xs)
  case Nil
  then show ?case by simp
next
  case (Cons x xs)
  then show ?case by (cases "x = ws") auto
qed

lemma broadcastToJob_wire:
  assumes "broadcastToJob jobId message s = Inr s'"
  shows "wire s' = wire s @ map (\<lambda>w. (w, message)) (filter (deliverable s) (members (jobSubscriptions s) jobId))"
  using assms forEach_sendMessage_wire
  by (auto simp: broadcastToJob_def members_def split: option.splits)

lemma handle_progress_dropped:
  "handleStatusUpdate progress_event dropped =
     Inr (dropped\<lparr>wire := wire dropped @ [(2, status_frame progress_event)]\<rparr>)"
  by (simp add: handleStatusUpdate_def broadcastToJob_def sendMessage_cases dropped_def
      progress_event_def closed_socket_def open_socket_def Map_get_def)

section \<open>Job submission\<close>

lemma default_model_id_value: "default_model_id = Inr ''gpt-4o-mini''"
  by (simp add: default_model_id_def getDefaultModel_def AVAILABLE_MODELS_def)

lemma selected_model_total: "\<exists>m. selected_model model_id = Inr m"
  by (simp add: selected_model_def default_model_id_value split: option.splits)

lemma supabase_request_frame:
  assumes "supabase_request a = (ok, a1)"
  shows "db_jobs a1 = db_jobs a" "publisherClient a1 = publisherClient a"
    "redis_lists a1 = redis_lists a" "redis_published a1 = redis_published a"
    "db_faults a1 = drop 1 (db_faults a)" "ok = store_accepts 0 a"
  using assms by (auto simp: supabase_request_def store_accepts_def split: list.splits)

lemma updateJobStatus_frame:
  assumes "updateJobStatus now jobId st result errorMessage a = (ok, a1)"
  shows "publisherClient a1 = publisherClient a"
    "redis_lists a1 = redis_lists a" "redis_published a1 = redis_published a"
    "db_faults a1 = drop 1 (db_faults a)" "ok = store_accepts 0 a"
    "db_jobs a1 = (if ok then map (\<lambda>j. if j_id j = jobId then apply_update now st result errorMessage j else j) (db_jobs a) else db_jobs a)"
proof -
  obtain ok0 a0 where r: "supabase_request a = (ok0, a0)" by (cases "supabase_request a")
  note f = supabase_request_frame[OF r]
  from assms r have "ok = ok0" by (cases ok0) (auto simp: updateJobStatus_def)
  with assms r f show "publisherClient a1 = publisherClient a"
    "redis_lists a1 = redis_lists a" "redis_published a1 = redis_published a"
    "db_faults a1 = drop 1 (db_faults a)" "ok = store_accepts 0 a"
    "db_jobs a1 = (if ok then map (\<lambda>j. if j_id j = jobId then apply_update now st result errorMessage j else j) (db_jobs a) else db_jobs a)"
    by (cases ok0; auto simp: updateJobStatus_def)+
qed

lemma pushJobToQueue_fails:
  "enqueue_fails a \<Longrightarrow> \<exists>e. pushJobToQueue job a = Inl (e, a)"
  by (auto simp: pushJobToQueue_def getPublisher_def enqueue_fails_def split: option.splits)

lemma store_accepts_drop:
  "db_faults a1 = drop k (db_faults a) \<Longrightarrow> store_accepts n a1 = store_accepts (n + k) a"
  by (simp add: store_accepts_def add.commute)

lemma apply_update_id: "j_id (apply_update now st result errorMessage j) = j_id j"
  by (simp add: apply_update_def Let_def split: option.splits)

lemma apply_update_failed:
  "e \<noteq> [] \<Longrightarrow>
   j_status (apply_update now failed None (Some e) j) = failed \<and>
   j_error_message (apply_update now failed None (Some e) j) = Some e"
  by (simp add: apply_update_def Let_def)

lemma createJob_accepted:
  assumes "store_accepts 0 a"
  shows "\<exists>job a1. createJob uuid now repoUrl selectedModel a = (Some job, a1) \<and>
           j_id job = uuid \<and> db_jobs a1 = db_jobs a @ [job] \<and>
           publisherClient a1 = publisherClient a \<and> redis_lists a1 = redis_lists a \<and>
           redis_published a1 = redis_published a \<and> db_faults a1 = drop 1 (db_faults a)"
proof -
  obtain ok0 a0 where r: "supabase_request a = (ok0, a0)" by (cases "supabase_request a")
  note f = supabase_request_frame[OF r]
  from f(6) assms have "ok0" by simp
  with r f show ?thesis by (simp add: createJob_def Let_def)
qed

lemma ids_after_update:
  "map j_id (map (\<lambda>j. if j_id j = jobId then apply_update now st result errorMessage j else j) js)
     = map j_id js"
  by (induction js) (simp_all add: apply_update_id)

lemma valid_example_url: "isValidRepoUrl ''https://github.com/acme/site''"
  by (simp add: isValidRepoUrl_def anchored_def owner_slash_def repo_tail_def repo_plus_def
      owner_char_def repo_char_def word_char_def)

lemma post_repos_bus_down:
  "post_repos ''id-1'' ticks ''https://github.com/acme/site'' None bus_down =
     Inr (\<lparr>http_status = 500, reply = Failure ''Failed to queue job for processing''\<rparr>,
          bus_down\<lparr>db_jobs :=
                     [\<lparr>j_id = ''id-1'', j_repo_url = ''https://github.com/acme/site'',
                       j_status = failed, j_selected_model = ''gpt-4o-mini'', j_result = None,
                       j_error_message = Some ''Failed to queue job'',
                       j_created_at = ''2025-01-01T10:00:00.000Z'',
                       j_updated_at = ''2025-01-01T10:00:00.300Z''\<rparr>],
                   server_console := [FailedToPublish]\<rparr>)"
  by (simp add: post_repos_def valid_example_url selected_model_def default_model_id_value
      createJob_def updateJobStatus_def supabase_request_def pushJobToQueue_def getPublisher_def
      apply_update_def bus_down_def ticks_def Let_def)

section \<open>The claims\<close>

text \<open>
  Claim C1, as amended. A status event for job \<open>J\<close> arrives in a reachable state. The
  handler (and the bus listener that calls it) returns normally, and the frames it
  hands to the transport are these: every connection registered for \<open>J\<close> that is open
  and whose \<^verbatim>\<open>send\<close> does not throw takes exactly one frame, tagged \<^verbatim>\<open>status\<close> and
  carrying \<open>J\<close> as its \<^verbatim>\<open>job_id\<close>; every other connection takes none, whether it is
  registered only for other jobs, for no job, or is registered for \<open>J\<close> but not open.
\<close>

theorem status_forwarding:
  assumes "reachable s"
  shows "\<exists>s' new. handleStatusUpdate st s = Inr s' \<and> status_listener (Some st) s = Inr s' \<and>
           wire s' = wire s @ new \<and>
           (\<forall>ws. filter (\<lambda>(w, f). w = ws) new =
                   (if Set_has (members (jobSubscriptions s) (sm_job_id st)) ws \<and> deliverable s ws
                    then [(ws, status_frame st)] else [])) \<and>
           out_type (status_frame st) = status \<and>
           out_job_id (status_frame st) = Some (sm_job_id st)"
proof -
  let ?subs = "members (jobSubscriptions s) (sm_job_id st)"
  let ?new = "map (\<lambda>w. (w, status_frame st)) (filter (deliverable s) ?subs)"
  obtain s' where s': "broadcastToJob (sm_job_id st) (status_frame st) s = Inr s'"
    using broadcastToJob_total by blast
  have d: "distinct ?subs"
    using reachable_registry_ok[OF assms] by (rule members_distinct)
  have "handleStatusUpdate st s = Inr s'" using s' by (simp add: handleStatusUpdate_def)
  moreover from this have "status_listener (Some st) s = Inr s'" by (simp add: status_listener_def)
  moreover have "wire s' = wire s @ ?new" using s' by (rule broadcastToJob_wire)
  moreover have "\<forall>ws. filter (\<lambda>(w, f). w = ws) ?new =
      (if Set_has ?subs ws \<and> deliverable s ws then [(ws, status_frame st)] else [])"
    using frames_of_one[OF d, where m = "status_frame st" and P = "deliverable s"]
    by (simp add: Set_has_def)
  moreover have "out_type (status_frame st) = status \<and> out_job_id (status_frame st) = Some (sm_job_id st)"
    by (simp add: status_frame_def)
  ultimately show ?thesis by blast
qed

theorem status_forwarding_witness:
  "reachable watching \<and>
   handleStatusUpdate progress_event watching =
     Inr (watching\<lparr>wire := wire watching @
            [(1, status_frame progress_event), (2, status_frame progress_event)]\<rparr>) \<and>
   out_job_id (status_frame progress_event) = Some ''J1''"
proof -
  have "handleStatusUpdate progress_event watching =
     Inr (watching\<lparr>wire := wire watching @
            [(1, status_frame progress_event), (2, status_frame progress_event)]\<rparr>)"
    by (simp add: handleStatusUpdate_def broadcastToJob_def sendMessage_cases watching_def
        progress_event_def open_socket_def Map_get_def)
  with status_forwarding[OF reachable_watching, of progress_event] reachable_watching
  show ?thesis by (auto simp: progress_event_def)
qed

text \<open>
  Claim C1 as stated fails: connection 1 is registered for J1 but its transport has
  closed, and the status event for J1 reaches connection 2 only.
\<close>

theorem status_to_closed_observer_counterexample:
  "reachable dropped \<and>
   Set_has (members (jobSubscriptions dropped) ''J1'') 1 \<and>
   sm_job_id progress_event = ''J1'' \<and>
   readyState (sockets dropped 1) = 3 \<and>
   handleStatusUpdate progress_event dropped =
     Inr (dropped\<lparr>wire := wire dropped @ [(2, status_frame progress_event)]\<rparr>)"
  using reachable_dropped handle_progress_dropped
  by (simp add: dropped_def members_def container_defs progress_event_def closed_socket_def)

text \<open>
  Claim C2. In every state that a run of subscribe, unsubscribe, close and the other
  events reaches, a job id is a key of \<^verbatim>\<open>jobSubscriptions\<close> exactly when its observer set
  is non-empty; and when removing a connection empties the set of a job,
  \<^verbatim>\<open>unsubscribeFromJob\<close> leaves the map without that key.
\<close>

theorem registry_no_dangling_keys:
  assumes "reachable s"
  shows "(\<forall>jobId. Map_has (jobSubscriptions s) jobId = (members (jobSubscriptions s) jobId \<noteq> [])) \<and>
         (\<forall>ws jobId. Set_delete (members (jobSubscriptions s) jobId) ws = [] \<longrightarrow>
            \<not> Map_has (jobSubscriptions (unsubscribeFromJob ws jobId s)) jobId)"
proof -
  have ok: "registry_ok (jobSubscriptions s)" using assms by (rule reachable_registry_ok)
  have ok': "registry_ok (jobSubscriptions (unsubscribeFromJob ws jobId s))" for ws jobId
    using ok by (rule registry_ok_unsubscribe)
  show ?thesis
    using Map_has_members[OF ok] Map_has_members[OF ok']
    by (simp add: members_unsubscribe Set_delete_def)
qed

theorem registry_no_dangling_keys_witness:
  "reachable watching \<and> Map_has (jobSubscriptions watching) ''J2'' \<and>
   Set_delete (members (jobSubscriptions watching) ''J2'') 3 = [] \<and>
   \<not> Map_has (jobSubscriptions (unsubscribeFromJob 3 ''J2'' watching)) ''J2'' \<and>
   \<not> Map_has (jobSubscriptions watching) ''J9''"
  using registry_no_dangling_keys[OF reachable_watching] reachable_watching
  by (simp add: watching_def members_def container_defs)

text \<open>
  Claim C3. From a reachable state, \<^verbatim>\<open>subscribeToJob\<close> run twice with the same
  connection and job leaves the registry (and the connection set) as the first call
  left it; the key is present after the first call, the connection occurs exactly once
  in the set of the job, and when nobody else was subscribed that set is the singleton
  of the connection, of size 1.
\<close>

theorem subscribe_idempotent:
  assumes "reachable s"
  shows "\<exists>s1 s2. subscribeToJob ws jobId s = Inr s1 \<and> subscribeToJob ws jobId s1 = Inr s2 \<and>
           jobSubscriptions s2 = jobSubscriptions s1 \<and> allConnections s2 = allConnections s1 \<and>
           Map_has (jobSubscriptions s1) jobId \<and>
           count_list (members (jobSubscriptions s1) jobId) ws = 1 \<and>
           (set (members (jobSubscriptions s) jobId) \<subseteq> {ws} \<longrightarrow>
              members (jobSubscriptions s1) jobId = [ws] \<and>
              Set_size (members (jobSubscriptions s1) jobId) = 1)"
proof -
  obtain s1 where s1: "subscribeToJob ws jobId s = Inr s1"
    using subscribeToJob_total by blast
  obtain s2 where s2: "subscribeToJob ws jobId s1 = Inr s2"
    using subscribeToJob_total by blast
  let ?m = "jobSubscriptions s"
  have ok: "registry_ok ?m" using assms by (rule reachable_registry_ok)
  have d: "distinct (members ?m jobId)" using ok by (rule members_distinct)
  have m1: "jobSubscriptions s1 = Map_set ?m jobId (Set_add (members ?m jobId) ws)"
    using s1 by (rule subscribeToJob_registry)
  have mem1: "members (jobSubscriptions s1) jobId = Set_add (members ?m jobId) ws"
    by (simp add: m1 members_Map_set)
  have "jobSubscriptions s2 = jobSubscriptions s1"
    unfolding subscribeToJob_registry[OF s2] mem1 Set_add_twice
    by (simp add: m1 Map_set_twice)
  moreover have "allConnections s2 = allConnections s1"
    using s2 by (simp add: subscribeToJob_def Let_def sendMessage_cases split: if_splits) auto
  moreover have "Map_has (jobSubscriptions s1) jobId"
    by (simp add: m1 Map_has_def Map_get_Map_set)
  moreover have "count_list (members (jobSubscriptions s1) jobId) ws = 1"
    unfolding mem1 using d by (rule count_Set_add)
  moreover have "set (members ?m jobId) \<subseteq> {ws} \<longrightarrow>
      members (jobSubscriptions s1) jobId = [ws] \<and> Set_size (members (jobSubscriptions s1) jobId) = 1"
    unfolding mem1 using Set_add_only[OF d] by (simp add: Set_size_def)
  ultimately show ?thesis using s1 s2 by blast
qed

theorem subscribe_idempotent_witness:
  "reachable watching \<and> set (members (jobSubscriptions watching) ''J3'') \<subseteq> {4} \<and>
   (\<exists>s1 s2. subscribeToJob 4 ''J3'' watching = Inr s1 \<and> subscribeToJob 4 ''J3'' s1 = Inr s2 \<and>
      jobSubscriptions s2 = jobSubscriptions s1 \<and> members (jobSubscriptions s1) ''J3'' = [4])"
proof -
  have e: "set (members (jobSubscriptions watching) ''J3'') \<subseteq> {4}"
    by (simp add: watching_def members_def container_defs)
  from subscribe_idempotent[OF reachable_watching, of 4 "''J3''"] e reachable_watching
  show ?thesis by blast
qed

text \<open>
  Claim C4. A submission with a valid URL whose job row the store created reaches the
  enqueue. When the bus write raises, the handler answers with status 500 and an
  error, and nothing is published on the bus. The claim speaks of a store that takes the
  update of the \<^verbatim>\<open>catch\<close> block: when the store accepts that request, the third of the
  submission, the job is \<^verbatim>\<open>failed\<close> and carries the non-empty message
  \<^verbatim>\<open>Failed to queue job\<close>.
\<close>

theorem enqueue_failure_reported:
  assumes "isValidRepoUrl repo_url" and "store_accepts 0 a" and "enqueue_fails a"
  shows "\<exists>a'. post_repos uuid clk repo_url model_id a =
              Inr (\<lparr>http_status = 500,
                    reply = Failure ''Failed to queue job for processing''\<rparr>, a') \<and>
           redis_published a' = redis_published a \<and>
           (store_accepts 2 a \<longrightarrow>
              (\<exists>j \<in> set (db_jobs a'). j_id j = uuid) \<and>
              (\<forall>j \<in> set (db_jobs a'). j_id j = uuid \<longrightarrow>
                 j_status j = failed \<and> j_error_message j = Some ''Failed to queue job'' \<and>
                 j_error_message j \<noteq> Some []))"
proof -
  obtain m where m: "selected_model model_id = Inr m" using selected_model_total by blast
  obtain job a1 where c: "createJob uuid (at_insert clk) repo_url m a = (Some job, a1)"
    and jid: "j_id job = uuid" and jobs1: "db_jobs a1 = db_jobs a @ [job]"
    and pc1: "publisherClient a1 = publisherClient a"
    and p1: "redis_published a1 = redis_published a" and f1: "db_faults a1 = drop 1 (db_faults a)"
    using createJob_accepted[OF assms(2)] by blast
  obtain ok2 a2 where u2: "updateJobStatus (at_processing clk) uuid processing None None a1 = (ok2, a2)"
    by (cases "updateJobStatus (at_processing clk) uuid processing None None a1")
  note f2 = updateJobStatus_frame[OF u2]
  let ?jm = "\<lparr>jm_job_id = uuid, jm_repo_url = repo_url, jm_selected_model = m,
              jm_timestamp = at_descriptor clk\<rparr>"
  have "enqueue_fails a2" using assms(3) f2(1) pc1 by (simp add: enqueue_fails_def)
  then obtain e where push: "pushJobToQueue ?jm a2 = Inl (e, a2)"
    using pushJobToQueue_fails by blast
  let ?a4 = "a2\<lparr>server_console := server_console a2 @ [FailedToPublish]\<rparr>"
  obtain ok5 a5 where u5:
    "updateJobStatus (at_failed clk) uuid failed None (Some ''Failed to queue job'') ?a4 = (ok5, a5)"
    by (cases "updateJobStatus (at_failed clk) uuid failed None (Some ''Failed to queue job'') ?a4")
  note f5 = updateJobStatus_frame[OF u5]
  have res: "post_repos uuid clk repo_url model_id a =
      Inr (\<lparr>http_status = 500, reply = Failure ''Failed to queue job for processing''\<rparr>, a5)"
    using assms(1) m c jid u2 push u5 by (simp add: post_repos_def Let_def)
  have pub: "redis_published a5 = redis_published a" using f5(3) f2(3) p1 by simp
  have "db_faults ?a4 = drop 2 (db_faults a)" using f2(4) f1 by (simp add: numeral_2_eq_2)
  from store_accepts_drop[OF this, of 0] f5(5) have ok5: "ok5 = store_accepts 2 a"
    by (simp add: numeral_2_eq_2)
  have "map j_id (db_jobs a2) = map j_id (db_jobs a1)"
    unfolding f2(6) by (cases ok2) (simp_all only: if_True if_False ids_after_update)
  then have ids2: "map j_id (db_jobs a2) = map j_id (db_jobs a) @ [uuid]"
    using jobs1 jid by simp
  have store: "(\<exists>j \<in> set (db_jobs a5). j_id j = uuid) \<and>
      (\<forall>j \<in> set (db_jobs a5). j_id j = uuid \<longrightarrow>
         j_status j = failed \<and> j_error_message j = Some ''Failed to queue job'' \<and>
         j_error_message j \<noteq> Some [])"
    if acc: "store_accepts 2 a"
  proof -
    let ?upd = "\<lambda>j. if j_id j = uuid
                   then apply_update (at_failed clk) failed None (Some ''Failed to queue job'') j
                   else j"
    have jobs5: "db_jobs a5 = map ?upd (db_jobs a2)" using f5(6) ok5 acc by simp
    have "map j_id (db_jobs a5) = map j_id (db_jobs a) @ [uuid]"
      unfolding jobs5 ids_after_update ids2 ..
    then have "uuid \<in> set (map j_id (db_jobs a5))" by simp
    then have ex: "\<exists>j \<in> set (db_jobs a5). j_id j = uuid" by auto
    have all: "\<forall>j \<in> set (db_jobs a5). j_id j = uuid \<longrightarrow>
         j_status j = failed \<and> j_error_message j = Some ''Failed to queue job'' \<and>
         j_error_message j \<noteq> Some []"
    proof (intro ballI impI)
      fix j assume j: "j \<in> set (db_jobs a5)" and id: "j_id j = uuid"
      from j obtain j0 where j0: "j0 \<in> set (db_jobs a2)" and eq: "j = ?upd j0"
        unfolding jobs5 by auto
      have "j_id j0 = uuid"
        using id eq by (cases "j_id j0 = uuid") simp_all
      then have "j = apply_update (at_failed clk) failed None (Some ''Failed to queue job'') j0"
        using eq by simp
      then show "j_status j = failed \<and> j_error_message j = Some ''Failed to queue job'' \<and>
         j_error_message j \<noteq> Some []"
        using apply_update_failed[of "''Failed to queue job''" "at_failed clk" j0] by simp
    qed
    from ex all show ?thesis by (rule conjI)
  qed
  show ?thesis
  proof (intro exI conjI impI)
    show "post_repos uuid clk repo_url model_id a =
      Inr (\<lparr>http_status = 500, reply = Failure ''Failed to queue job for processing''\<rparr>, a5)"
      by (rule res)
    show "redis_published a5 = redis_published a" by (rule pub)
    assume acc: "store_accepts 2 a"
    from store[OF acc] show "\<exists>j \<in> set (db_jobs a5). j_id j = uuid" by (rule conjunct1)
    from store[OF acc] show "\<forall>j \<in> set (db_jobs a5). j_id j = uuid \<longrightarrow>
         j_status j = failed \<and> j_error_message j = Some ''Failed to queue job'' \<and>
         j_error_message j \<noteq> Some []" by (rule conjunct2)
  qed
qed

theorem enqueue_failure_reported_witness:
  "isValidRepoUrl ''https://github.com/acme/site'' \<and> store_accepts 0 bus_down \<and>
   enqueue_fails bus_down \<and> store_accepts 2 bus_down \<and>
   post_repos ''id-1'' ticks ''https://github.com/acme/site'' None bus_down =
     Inr (\<lparr>http_status = 500, reply = Failure ''Failed to queue job for processing''\<rparr>,
          bus_down\<lparr>db_jobs :=
                     [\<lparr>j_id = ''id-1'', j_repo_url = ''https://github.com/acme/site'',
                       j_status = failed, j_selected_model = ''gpt-4o-mini'', j_result = None,
                       j_error_message = Some ''Failed to queue job'',
                       j_created_at = ''2025-01-01T10:00:00.000Z'',
                       j_updated_at = ''2025-01-01T10:00:00.300Z''\<rparr>],
                   server_console := [FailedToPublish]\<rparr>) \<and>
   redis_published bus_down = []"
proof -
  have h: "store_accepts 0 bus_down" "enqueue_fails bus_down" "store_accepts 2 bus_down"
    by (simp_all add: store_accepts_def enqueue_fails_def bus_down_def)
  have p: "redis_published bus_down = []"
    by (simp add: bus_down_def)
  from enqueue_failure_reported[OF valid_example_url h(1) h(2), of "''id-1''" ticks None]
    h valid_example_url p post_repos_bus_down
  show ?thesis by simp
qed

text \<open>
  Claim C5. The \<^verbatim>\<open>close\<close> handler returns normally; it leaves the registry that
  \<^verbatim>\<open>cleanupConnection\<close> computes, in which the connection is removed from the set of
  every job, a key remains exactly when its set is still non-empty, and, when the
  connection was subscribed to nothing, the registry is the one before.
\<close>

theorem close_removes_observer_everywhere:
  assumes "reachable s"
  shows "\<exists>s'. ws_close ws s = Inr s' \<and>
           jobSubscriptions s' = jobSubscriptions (cleanupConnection ws s) \<and>
           (\<forall>jobId. members (jobSubscriptions s') jobId =
                      Set_delete (members (jobSubscriptions s) jobId) ws) \<and>
           (\<forall>jobId. Map_has (jobSubscriptions s') jobId =
                      (Set_delete (members (jobSubscriptions s) jobId) ws \<noteq> [])) \<and>
           ((\<forall>jobId. \<not> Set_has (members (jobSubscriptions s) jobId) ws) \<longrightarrow>
              jobSubscriptions s' = jobSubscriptions s)"
proof -
  let ?m = "jobSubscriptions s"
  let ?c = "cleanupConnection ws s"
  have ok: "registry_ok ?m" using assms by (rule reachable_registry_ok)
  then have dist: "distinct (map fst ?m)" by (simp add: registry_ok_def)
  have reg: "jobSubscriptions ?c = swept ws ?m" using dist by (rule cleanupConnection_registry)
  have ok': "registry_ok (jobSubscriptions ?c)" using ok by (rule registry_ok_cleanup)
  have mem: "members (jobSubscriptions ?c) jobId = Set_delete (members ?m jobId) ws" for jobId
    by (simp add: reg members_swept[OF dist] Set_delete_def)
  have has: "Map_has (jobSubscriptions ?c) jobId = (Set_delete (members ?m jobId) ws \<noteq> [])" for jobId
    by (simp add: Map_has_members[OF ok'] mem)
  have noop: "(\<forall>jobId. \<not> Set_has (members ?m jobId) ws) \<longrightarrow> jobSubscriptions ?c = ?m"
    using swept_untouched[OF ok, of ws] by (simp add: reg Set_has_def)
  have "ws_close ws s = Inr (?c\<lparr>console := console ?c @ [Disconnected (Set_size (allConnections ?c))]\<rparr>)"
    by (simp add: ws_close_def Let_def)
  with mem has noop show ?thesis by simp
qed

theorem close_removes_observer_everywhere_witness:
  "reachable dropped \<and>
   (\<exists>s'. ws_close 2 dropped = Inr s' \<and> jobSubscriptions s' = [(''J1'', [1])]) \<and>
   (\<forall>jobId. \<not> Set_has (members (jobSubscriptions dropped) jobId) 7) \<and>
   (\<exists>s'. ws_close 7 dropped = Inr s' \<and> jobSubscriptions s' = jobSubscriptions dropped)"
proof -
  have none: "\<forall>jobId. \<not> Set_has (members (jobSubscriptions dropped) jobId) 7"
    by (simp add: dropped_def members_def container_defs)
  have "swept 2 (jobSubscriptions dropped) = [(''J1'', [1])]"
    by (simp add: dropped_def swept_def)
  then have "jobSubscriptions (cleanupConnection 2 dropped) = [(''J1'', [1])]"
    by (simp add: cleanupConnection_registry dropped_def)
  with close_removes_observer_everywhere[OF reachable_dropped, of 2]
    close_removes_observer_everywhere[OF reachable_dropped, of 7] none reachable_dropped
  show ?thesis by metis
qed

text \<open>
  Claim C6. \<^verbatim>\<open>sendMessage\<close> returns normally for every connection, message and state,
  whatever the \<^verbatim>\<open>readyState\<close> and whether or not the underlying \<^verbatim>\<open>send\<close> throws; and
  when the connection is not open the call changes nothing: no frame is sent and no
  line is logged.
\<close>

theorem sendMessage_never_raises:
  "(\<exists>s'. sendMessage ws message s = Inr s') \<and>
   (readyState (sockets s ws) \<noteq> 1 \<longrightarrow> sendMessage ws message s = Inr s)"
  by (simp add: sendMessage_cases)

theorem sendMessage_never_raises_witness:
  "readyState (sockets (init_relay (\<lambda>w. \<lparr>readyState = 3, send_throws = True\<rparr>)) 5) \<noteq> 1 \<and>
   sendMessage 5 (subscribed_frame ''J1'') (init_relay (\<lambda>w. \<lparr>readyState = 3, send_throws = True\<rparr>))
     = Inr (init_relay (\<lambda>w. \<lparr>readyState = 3, send_throws = True\<rparr>))"
  using sendMessage_never_raises
    [of 5 "subscribed_frame ''J1''" "init_relay (\<lambda>w. \<lparr>readyState = 3, send_throws = True\<rparr>)"]
  by (simp add: init_relay_def)

text \<open>
  Claim C8. From a reachable state, unsubscribing a connection from a job that has no
  entry, or whose set does not contain the connection, changes nothing:
  \<^verbatim>\<open>unsubscribeFromJob\<close> returns the state it was given, and the message handler
  returns normally with that same state, so no frame is sent.
\<close>

theorem unsubscribe_absent_noop:
  assumes "reachable s"
    and "\<not> Map_has (jobSubscriptions s) jobId \<or> \<not> Set_has (members (jobSubscriptions s) jobId) ws"
  shows "unsubscribeFromJob ws jobId s = s \<and> ws_message ws (unsubscribe_from jobId) s = Inr s"
proof -
  have ok: "registry_ok (jobSubscriptions s)" using assms(1) by (rule reachable_registry_ok)
  have u: "unsubscribeFromJob ws jobId s = s"
  proof (cases "Map_get (jobSubscriptions s) jobId")
    case None
    then show ?thesis by (simp add: unsubscribeFromJob_def)
  next
    case (Some subs)
    with assms(2) have "ws \<notin> set subs" by (simp add: Map_has_def members_def Set_has_def)
    then have r: "removeAll ws subs = subs" by simp
    from registry_ok_Map_get[OF ok Some] have "subs \<noteq> []" by simp
    then show ?thesis
      using Some r by (simp add: unsubscribeFromJob_def Let_def Set_delete_def Set_size_def Map_set_same)
  qed
  then show ?thesis by (simp add: ws_message_def unsubscribe_from_def)
qed

theorem unsubscribe_absent_noop_witness:
  "reachable watching \<and>
   \<not> Map_has (jobSubscriptions watching) ''J7'' \<and>
   unsubscribeFromJob 1 ''J7'' watching = watching \<and>
   Map_has (jobSubscriptions watching) ''J1'' \<and>
   \<not> Set_has (members (jobSubscriptions watching) ''J1'') 3 \<and>
   unsubscribeFromJob 3 ''J1'' watching = watching \<and>
   ws_message 3 (unsubscribe_from ''J1'') watching = Inr watching"
proof -
  have a: "\<not> Map_has (jobSubscriptions watching) ''J7''"
    by (simp add: watching_def container_defs)
  have b: "Map_has (jobSubscriptions watching) ''J1'' \<and> \<not> Set_has (members (jobSubscriptions watching) ''J1'') 3"
    by (simp add: watching_def members_def container_defs)
  from unsubscribe_absent_noop[OF reachable_watching, of "''J7''" 1]
    unsubscribe_absent_noop[OF reachable_watching, of "''J1''" 3] a b reachable_watching
  show ?thesis by simp
qed

text \<open>
  Claim C9. From a reachable state, \<^verbatim>\<open>cleanupConnection\<close> applied twice to one
  connection gives the state that one application gives; and when the \<^verbatim>\<open>error\<close>
  handler has run, the \<^verbatim>\<open>close\<close> handler of the same connection only adds its line to
  the console.
\<close>

theorem cleanup_idempotent:
  assumes "reachable s"
  shows "cleanupConnection ws (cleanupConnection ws s) = cleanupConnection ws s \<and>
         (\<exists>s1. ws_error ws s = Inr s1 \<and>
            ws_close ws s1 =
              Inr (s1\<lparr>console := console s1 @ [Disconnected (Set_size (allConnections s1))]\<rparr>))"
proof -
  have idem: "cleanupConnection ws (cleanupConnection ws t) = cleanupConnection ws t"
    if "registry_ok (jobSubscriptions t)" for t
  proof -
    from that have dist: "distinct (map fst (jobSubscriptions t))" by (simp add: registry_ok_def)
    have c: "cleanupConnection ws t =
        t\<lparr>allConnections := removeAll ws (allConnections t), jobSubscriptions := swept ws (jobSubscriptions t)\<rparr>"
      using dist by (rule cleanupConnection_eq)
    have "distinct (map fst (jobSubscriptions (cleanupConnection ws t)))"
      using dist by (simp add: c swept_keys)
    from cleanupConnection_eq[OF this, of ws] show ?thesis
      by (simp add: c swept_idem)
  qed
  have ok: "registry_ok (jobSubscriptions s)" using assms by (rule reachable_registry_ok)
  let ?s0 = "s\<lparr>console := console s @ [WebSocketError]\<rparr>"
  have ok0: "registry_ok (jobSubscriptions ?s0)" using ok by simp
  have "ws_error ws s = Inr (cleanupConnection ws ?s0)" by (simp add: ws_error_def)
  moreover have "ws_close ws (cleanupConnection ws ?s0) =
      Inr ((cleanupConnection ws ?s0)\<lparr>console := console (cleanupConnection ws ?s0) @
             [Disconnected (Set_size (allConnections (cleanupConnection ws ?s0)))]\<rparr>)"
    unfolding ws_close_def Let_def idem[OF ok0] by simp
  ultimately show ?thesis using idem[OF ok] by simp
qed

theorem cleanup_idempotent_witness:
  "reachable dropped \<and>
   cleanupConnection 1 dropped = dropped\<lparr>allConnections := [2], jobSubscriptions := [(''J1'', [2]), (''J2'', [2])]\<rparr> \<and>
   cleanupConnection 1 (cleanupConnection 1 dropped) = cleanupConnection 1 dropped"
proof -
  have "cleanupConnection 1 dropped = dropped\<lparr>allConnections := [2], jobSubscriptions := [(''J1'', [2]), (''J2'', [2])]\<rparr>"
    by (simp add: cleanupConnection_eq dropped_def swept_def)
  with cleanup_idempotent[OF reachable_dropped, of 1] reachable_dropped show ?thesis by simp
qed

text \<open>
  Claim C10. \<^verbatim>\<open>subscribeToJob\<close> returns normally in every state and the connection is
  then a member of the set of the job, whatever its \<^verbatim>\<open>readyState\<close>. The acknowledgment
  is handed to the transport exactly when the connection is open and its \<^verbatim>\<open>send\<close> does
  not throw; for a connection that is not open nothing is sent and nothing is logged,
  and the connection, still not open, sits in the registry.
\<close>

theorem subscribe_regardless_of_readyState:
  "\<exists>s'. subscribeToJob ws jobId s = Inr s' \<and>
         Set_has (members (jobSubscriptions s') jobId) ws \<and>
         wire s' = wire s @ (if deliverable s ws then [(ws, subscribed_frame jobId)] else []) \<and>
         (readyState (sockets s ws) \<noteq> 1 \<longrightarrow>
            wire s' = wire s \<and> console s' = console s \<and> readyState (sockets s' ws) \<noteq> 1)"
proof -
  obtain s' where s': "subscribeToJob ws jobId s = Inr s'"
    using subscribeToJob_total by blast
  let ?m2 = "Map_set (jobSubscriptions s) jobId (Set_add (members (jobSubscriptions s) jobId) ws)"
  have "Set_has (members (jobSubscriptions s') jobId) ws"
    using Set_add_props[of "members (jobSubscriptions s) jobId" ws]
    by (simp add: subscribeToJob_registry[OF s'] members_Map_set Set_has_def)
  moreover have send: "sendMessage ws (subscribed_frame jobId) (s\<lparr>jobSubscriptions := ?m2\<rparr>) = Inr s'"
    using s' subscribed_registry[OF refl, of "jobSubscriptions s" jobId ws]
    unfolding subscribeToJob_def Let_def by simp
  from sendMessage_wire[OF send]
  have "wire s' = wire s @ (if deliverable s ws then [(ws, subscribed_frame jobId)] else [])"
    by (simp add: deliverable_def)
  moreover have "readyState (sockets s ws) \<noteq> 1 \<longrightarrow>
      wire s' = wire s \<and> console s' = console s \<and> readyState (sockets s' ws) \<noteq> 1"
    using send by (auto simp: sendMessage_cases)
  ultimately show ?thesis using s' by blast
qed

theorem subscribe_regardless_of_readyState_witness:
  "reachable dropped \<and> readyState (sockets dropped 1) \<noteq> 1 \<and>
   subscribeToJob 1 ''J2'' dropped =
     Inr (dropped\<lparr>jobSubscriptions := [(''J1'', [1, 2]), (''J2'', [2, 1])]\<rparr>) \<and>
   wire (dropped\<lparr>jobSubscriptions := [(''J1'', [1, 2]), (''J2'', [2, 1])]\<rparr>) = wire dropped"
proof -
  have c: "readyState (sockets dropped 1) \<noteq> 1" by (simp add: dropped_def closed_socket_def)
  have e: "subscribeToJob 1 ''J2'' dropped =
     Inr (dropped\<lparr>jobSubscriptions := [(''J1'', [1, 2]), (''J2'', [2, 1])]\<rparr>)"
    by (simp add: subscribeToJob_def Let_def sendMessage_cases dropped_def closed_socket_def container_defs)
  from subscribe_regardless_of_readyState[of 1 "''J2''" dropped] c e reachable_dropped
  show ?thesis by auto
qed

end
